theory Spec2Isabelle
  imports Main "HOL-Library.AList"
begin

section \<open>The signalling relay of webrtc-mvp\<close>

text \<open>
  The repository holds several generations of the same relay. The embedding follows the
  variant that carries every mechanism the specification describes (room-id validation, the
  same-room check of \<open>signal\<close>, per-room name uniqueness, server-side author resolution):
  the first program of \<open>src/unnamed/part_001\<close> (its lines 1 to 290). Line numbers in the
  comments below refer to that file.

  Conventions of the embedding:
  \<^item> a value that arrives from a client is a \<open>jsval\<close>; numbers are restricted to integers;
  \<^item> a JavaScript string is a \<open>string\<close>, one \<open>char\<close> per code unit (code units above 255
    are not represented);
  \<^item> \<open>Date.now()\<close> is the parameter \<open>now\<close> of the handler that reads it;
  \<^item> \<open>console.log\<close> prints nothing into the model, but an exception raised while its
    arguments are evaluated is a result of the handler;
  \<^item> what a handler sends is an outbox: the list of (recipient socket id, message) pairs in
    the order of the \<open>emit\<close> calls;
  \<^item> the rooms of the transport (socket.io) are part of the state, since \<open>socket.to\<close> and
    \<open>io.to\<close> address them and the handlers change them with \<open>socket.join\<close> and
    \<open>socket.leave\<close>.
\<close>

subsection \<open>JavaScript values\<close>

datatype jsval =
    JUndefined
  | JNull
  | JBool bool
  | JNum int
  | JStr string
  | JObj "(string \<times> jsval) list"

text \<open>\<open>ToBoolean\<close>: what \<open>if (v)\<close> and \<open>!v\<close> test.\<close>

fun truthy :: "jsval \<Rightarrow> bool" where
  "truthy JUndefined = False"
| "truthy JNull = False"
| "truthy (JBool b) = b"
| "truthy (JNum n) = (n \<noteq> 0)"
| "truthy (JStr s) = (s \<noteq> [])"
| "truthy (JObj fs) = True"

fun nullish :: "jsval \<Rightarrow> bool" where
  "nullish JUndefined = True"
| "nullish JNull = True"
| "nullish v = False"

text \<open>
  Reading an own property \<open>v.k\<close> of a value that is neither \<open>null\<close> nor \<open>undefined\<close>, for
  the keys the handlers destructure (\<open>to\<close>, \<open>data\<close>, \<open>userName\<close>, \<open>text\<close>, \<open>timestamp\<close>):
  a primitive has none of them.
\<close>

fun getProp :: "jsval \<Rightarrow> string \<Rightarrow> jsval" where
  "getProp (JObj fs) k = (case map_of fs k of None \<Rightarrow> JUndefined | Some v \<Rightarrow> v)"
| "getProp v k = JUndefined"

datatype exn = TypeError

subsection \<open>Data model (lines 20 to 33)\<close>

record activity =
  lastActivity :: int
  messageCount :: int
  lastMessageReset :: int
  roomJoins :: int
  lastRoomJoinReset :: int

definition MAX_MESSAGES_PER_MINUTE :: int where "MAX_MESSAGES_PER_MINUTE = 10"
definition MAX_ROOMS_PER_HOUR :: int where "MAX_ROOMS_PER_HOUR = 5"
definition MIN_TIME_BETWEEN_MESSAGES :: int where "MIN_TIME_BETWEEN_MESSAGES = 1000"
definition MAX_MESSAGE_LENGTH :: nat where "MAX_MESSAGE_LENGTH = 500"
definition MAX_USERNAME_LENGTH :: nat where "MAX_USERNAME_LENGTH = 20"

text \<open>
  The \<open>message\<close> texts of the \<open>error\<close> events, in the order of their appearance in the source:
  invalid room identifier (lines 139, 176), room-join limit exceeded (145), user not found
  in your room (218), invalid user name (231), user name already taken in the room (239),
  invalid message (265), message limit exceeded (271).
\<close>

datatype errMsg =
    InvalidRoomId
  | RoomJoinLimit
  | PeerNotInRoom
  | InvalidUserName
  | UserNameTaken
  | InvalidMessage
  | MessageLimit

text \<open>Server-to-client events; \<open>Error t m\<close> is \<open>error {type: t, message: m}\<close>.\<close>

datatype msg =
    Error string errMsg
  | PeersList "string list"
  | PeerJoined string
  | PeerLeft string
  | Signal string jsval
  | UserNameSet string string
  | ChatMessage string string jsval

type_synonym outbox = "(string \<times> msg) list"

text \<open>
  \<open>roomIdToSocketIds\<close> is a \<open>Map\<close> from room id to a \<open>Set\<close> of socket ids; both iterate in
  insertion order, so the map is an association list and each set a list.
  \<open>currentRoomId\<close> is the closure variable of each connection handler (\<open>null\<close> is \<open>None\<close>);
  \<open>connected\<close> is the set of sockets whose connection is open.
  \<open>adapterRooms\<close> is the transport's table of rooms: for every room name, the sockets in
  that room, in the order they came in. The name of a room is any string; the transport puts
  every socket into the room named by the socket's own id when it connects.
\<close>

record state =
  roomIdToSocketIds :: "(string \<times> string list) list"
  socketIdToUserName :: "string \<rightharpoonup> string"
  userActivity :: "string \<rightharpoonup> activity"
  currentRoomId :: "string \<Rightarrow> string option"
  connected :: "string set"
  adapterRooms :: "string \<Rightarrow> string list"

definition init_state :: state where
  "init_state = \<lparr> roomIdToSocketIds = [], socketIdToUserName = Map.empty,
     userActivity = Map.empty, currentRoomId = (\<lambda>c. None), connected = {},
     adapterRooms = (\<lambda>r. []) \<rparr>"

text \<open>\<open>if (currentRoomId)\<close>: \<open>null\<close> and the empty string are falsy.\<close>

fun roomTruthy :: "string option \<Rightarrow> bool" where
  "roomTruthy None = False"
| "roomTruthy (Some r) = (r \<noteq> [])"

text \<open>\<open>Set.add\<close> and \<open>Set.delete\<close> on an insertion-ordered set.\<close>

definition set_add :: "string \<Rightarrow> string list \<Rightarrow> string list" where
  "set_add x xs = (if x \<in> set xs then xs else xs @ [x])"

definition set_delete :: "string \<Rightarrow> string list \<Rightarrow> string list" where
  "set_delete x xs = removeAll x xs"

definition members :: "state \<Rightarrow> string \<Rightarrow> string list" where
  "members st r = (case map_of (roomIdToSocketIds st) r of None \<Rightarrow> [] | Some ps \<Rightarrow> ps)"

subsection \<open>Sending\<close>

text \<open>
  The transport as its interface documents it. \<open>socket.join(room)\<close> puts the socket into the
  room of that name and \<open>socket.leave(room)\<close> takes it out, whatever the name is, the
  socket's own id included; a socket that disconnects has left all its rooms by the time its
  \<open>disconnect\<close> handler runs.
\<close>

definition socket_join :: "string \<Rightarrow> string \<Rightarrow> state \<Rightarrow> state" where
  "socket_join c room st =
     st\<lparr>adapterRooms := (adapterRooms st)(room := set_add c (adapterRooms st room))\<rparr>"

definition socket_leave :: "string \<Rightarrow> string \<Rightarrow> state \<Rightarrow> state" where
  "socket_leave c room st =
     st\<lparr>adapterRooms := (adapterRooms st)(room := set_delete c (adapterRooms st room))\<rparr>"

definition socket_leaveAll :: "string \<Rightarrow> state \<Rightarrow> state" where
  "socket_leaveAll c st = st\<lparr>adapterRooms := (\<lambda>room. set_delete c (adapterRooms st room))\<rparr>"

text \<open>
  \<open>socket.emit\<close> reaches the socket itself. \<open>io.to(name).emit\<close> reaches every socket in the
  transport's room of that name: the socket whose id the name is, as long as it has not left
  that room, and every socket that joined a room so named. \<open>socket.to(room).emit\<close> reaches
  every socket in the transport's room except the sender.
\<close>

definition socket_emit :: "string \<Rightarrow> msg \<Rightarrow> outbox" where
  "socket_emit c m = [(c, m)]"

definition io_to :: "state \<Rightarrow> string \<Rightarrow> msg \<Rightarrow> outbox" where
  "io_to st t m = map (\<lambda>p. (p, m)) (adapterRooms st t)"

definition socket_to :: "state \<Rightarrow> string \<Rightarrow> string \<Rightarrow> msg \<Rightarrow> outbox" where
  "socket_to st room c m = map (\<lambda>p. (p, m)) (filter (\<lambda>p. p \<noteq> c) (adapterRooms st room))"

text \<open>The messages one socket receives from an outbox, in order.\<close>

definition received :: "string \<Rightarrow> outbox \<Rightarrow> msg list" where
  "received c out = map snd (filter (\<lambda>pm. fst pm = c) out)"

subsection \<open>Activity tracker (lines 37 to 95)\<close>

definition initializeUserActivity :: "string \<Rightarrow> int \<Rightarrow> state \<Rightarrow> state" where
  "initializeUserActivity socketId now st =
     st\<lparr>userActivity := (userActivity st)(socketId \<mapsto>
        \<lparr> lastActivity = now, messageCount = 0, lastMessageReset = now,
          roomJoins = 0, lastRoomJoinReset = now \<rparr>)\<rparr>"

text \<open>\<open>updateUserActivity\<close> is defined at line 48; no handler of the file calls it.\<close>

definition updateUserActivity :: "string \<Rightarrow> int \<Rightarrow> state \<Rightarrow> state" where
  "updateUserActivity socketId now st =
     (case userActivity st socketId of
        None \<Rightarrow> st
      | Some a \<Rightarrow> st\<lparr>userActivity := (userActivity st)(socketId \<mapsto> a\<lparr>lastActivity := now\<rparr>)\<rparr>)"

text \<open>
  The two checks mutate the activity object in place and return a boolean; the model
  returns the boolean with the state that holds the mutated object.
\<close>

definition checkMessageRate :: "string \<Rightarrow> int \<Rightarrow> state \<Rightarrow> bool \<times> state" where
  "checkMessageRate socketId now st =
     (case userActivity st socketId of
        None \<Rightarrow> (True, st)
      | Some a \<Rightarrow>
          if now - lastActivity a < MIN_TIME_BETWEEN_MESSAGES then (False, st)
          else
            let a1 = (if now - lastMessageReset a > 60000
                      then a\<lparr>messageCount := 0, lastMessageReset := now\<rparr> else a);
                st1 = st\<lparr>userActivity := (userActivity st)(socketId \<mapsto> a1)\<rparr>
            in if messageCount a1 \<ge> MAX_MESSAGES_PER_MINUTE then (False, st1)
               else (True, st\<lparr>userActivity := (userActivity st)(socketId \<mapsto>
                              a1\<lparr>messageCount := messageCount a1 + 1\<rparr>)\<rparr>))"

definition checkRoomJoinRate :: "string \<Rightarrow> int \<Rightarrow> state \<Rightarrow> bool \<times> state" where
  "checkRoomJoinRate socketId now st =
     (case userActivity st socketId of
        None \<Rightarrow> (True, st)
      | Some a \<Rightarrow>
          let a1 = (if now - lastRoomJoinReset a > 3600000
                    then a\<lparr>roomJoins := 0, lastRoomJoinReset := now\<rparr> else a);
              st1 = st\<lparr>userActivity := (userActivity st)(socketId \<mapsto> a1)\<rparr>
          in if roomJoins a1 \<ge> MAX_ROOMS_PER_HOUR then (False, st1)
             else (True, st\<lparr>userActivity := (userActivity st)(socketId \<mapsto>
                            a1\<lparr>roomJoins := roomJoins a1 + 1\<rparr>)\<rparr>))"

subsection \<open>Validator (lines 97 to 127 and the guard of lines 138 and 175)\<close>

text \<open>
  White space as \<open>String.prototype.trim\<close> and the class \<open>\s\<close> take it (tab, line feed,
  vertical tab, form feed, carriage return, space, no-break space), and the line terminators
  that the regular expression dot does not match.
\<close>

definition isWhiteSpace :: "char \<Rightarrow> bool" where
  "isWhiteSpace ch = (ch \<in> set [CHR 0x09, CHR 0x0A, CHR 0x0B, CHR 0x0C, CHR 0x0D, CHR 0x20, CHR 0xA0])"

definition isLineTerminator :: "char \<Rightarrow> bool" where
  "isLineTerminator ch = (ch = CHR 0x0A \<or> ch = CHR 0x0D)"

definition trim :: "string \<Rightarrow> string" where
  "trim s = rev (dropWhile isWhiteSpace (rev (dropWhile isWhiteSpace s)))"

definition upperChars :: string where
  "upperChars = ''ABCDEFGHIJKLMNOPQRSTUVWXYZ''"

definition lowerChars :: string where
  "lowerChars = ''abcdefghijklmnopqrstuvwxyz''"

definition digitChars :: string where
  "digitChars = ''0123456789''"

text \<open>The complement of the class \<open>[^a-zA-Z0-9_-]\<close> of lines 138 and 175.\<close>

definition roomIdChar :: "char \<Rightarrow> bool" where
  "roomIdChar ch = (ch \<in> set lowerChars \<or> ch \<in> set upperChars \<or> ch \<in> set digitChars
                    \<or> ch = CHR ''_'' \<or> ch = CHR ''-'')"

text \<open>
  The condition of the \<open>if\<close> at lines 138 and 175:
  \<open>!roomId || typeof roomId !== 'string' || roomId.length < 3 || roomId.length > 32
   || /[^a-zA-Z0-9_-]/.test(roomId)\<close>.
\<close>

definition roomIdRejected :: "jsval \<Rightarrow> bool" where
  "roomIdRejected roomId =
     (\<not> truthy roomId \<or>
      (case roomId of
         JStr s \<Rightarrow> length s < 3 \<or> length s > 32 \<or> list_ex (\<lambda>ch. \<not> roomIdChar ch) s
       | _ \<Rightarrow> True))"

text \<open>
  \<open>pattern.test(text)\<close> of an unanchored pattern: the pattern matches at the start of some
  suffix. Each pattern is a fresh literal on every call, so the \<open>g\<close> flag of the second one
  starts at index 0.
\<close>

fun tails :: "'a list \<Rightarrow> 'a list list" where
  "tails [] = [[]]"
| "tails (x # xs) = (x # xs) # tails xs"

definition regexTest :: "(string \<Rightarrow> bool) \<Rightarrow> string \<Rightarrow> bool" where
  "regexTest matchesAt s = list_ex matchesAt (tails s)"

text \<open>\<open>/(.)\1{10,}/\<close>: a character other than a line terminator and ten more copies of it.\<close>

fun repeatedAt :: "string \<Rightarrow> bool" where
  "repeatedAt [] = False"
| "repeatedAt (ch # rest) =
     (\<not> isLineTerminator ch \<and> length rest \<ge> 10 \<and> list_all (\<lambda>x. x = ch) (take 10 rest))"

text \<open>\<open>/https?:\/\/[^\s]+/gi\<close>.\<close>

fun schemeTailAt :: "string \<Rightarrow> bool" where
  "schemeTailAt (a # b # c # d # rest) =
     (a = CHR '':'' \<and> b = CHR ''/'' \<and> c = CHR ''/'' \<and> \<not> isWhiteSpace d)"
| "schemeTailAt rest = False"

fun urlAt :: "string \<Rightarrow> bool" where
  "urlAt (a # b # c # d # rest) =
     (a \<in> set ''hH'' \<and> b \<in> set ''tT'' \<and> c \<in> set ''tT'' \<and> d \<in> set ''pP'' \<and>
      (schemeTailAt rest \<or>
       (case rest of [] \<Rightarrow> False | e # rest' \<Rightarrow> e \<in> set ''sS'' \<and> schemeTailAt rest')))"
| "urlAt rest = False"

text \<open>\<open>/[A-Z]{10,}/\<close> and \<open>/[0-9]{10,}/\<close>: ten characters of the class in a row.\<close>

definition runAt :: "string \<Rightarrow> nat \<Rightarrow> string \<Rightarrow> bool" where
  "runAt cls n s = (length s \<ge> n \<and> list_all (\<lambda>ch. ch \<in> set cls) (take n s))"

definition spamPatterns :: "(string \<Rightarrow> bool) list" where
  "spamPatterns = [repeatedAt, urlAt, runAt upperChars 10, runAt digitChars 10]"

definition validateMessage :: "jsval \<Rightarrow> bool" where
  "validateMessage text =
     (case text of
        JStr s \<Rightarrow>
          if s = [] then False
          else if length s > MAX_MESSAGE_LENGTH then False
          else if length (trim s) = 0 then False
          else \<not> list_ex (\<lambda>pattern. regexTest pattern s) spamPatterns
      | _ \<Rightarrow> False)"

text \<open>\<open>/[<>\"'&]/\<close>.\<close>

definition invalidChars :: "char \<Rightarrow> bool" where
  "invalidChars ch = (ch \<in> set [CHR ''<'', CHR ''>'', CHR 0x22, CHR 0x27, CHR ''&''])"

definition validateUserName :: "jsval \<Rightarrow> bool" where
  "validateUserName userName =
     (case userName of
        JStr s \<Rightarrow>
          if s = [] then False
          else if length s > MAX_USERNAME_LENGTH then False
          else if length (trim s) < 2 then False
          else \<not> list_ex invalidChars s
      | _ \<Rightarrow> False)"

subsection \<open>Connection handlers (lines 129 to 283)\<close>

text \<open>
  The block that \<open>join\<close> (lines 151 to 156), \<open>leave\<close> (179 to 184) and \<open>disconnect\<close>
  (194 to 199) each contain: look the room up; if it is there, delete the socket from its
  set, tell the room \<open>peer-left\<close>, and delete the room when its set is empty.
\<close>

definition removePeer :: "string \<Rightarrow> string \<Rightarrow> state \<Rightarrow> state \<times> outbox" where
  "removePeer c room st =
     (case map_of (roomIdToSocketIds st) room of
        None \<Rightarrow> (st, [])
      | Some peers \<Rightarrow>
          let peers1 = set_delete c peers;
              st1 = st\<lparr>roomIdToSocketIds := AList.update room peers1 (roomIdToSocketIds st)\<rparr>;
              out = socket_to st1 room c (PeerLeft c)
          in (if peers1 = []
              then st1\<lparr>roomIdToSocketIds := AList.delete room (roomIdToSocketIds st1)\<rparr>
              else st1, out))"

text \<open>The same block under \<open>if (currentRoomId)\<close>.\<close>

definition leaveCurrent :: "string \<Rightarrow> state \<Rightarrow> state \<times> outbox" where
  "leaveCurrent c st =
     (case currentRoomId st c of
        None \<Rightarrow> (st, [])
      | Some cur \<Rightarrow> if cur = [] then (st, []) else removePeer c cur st)"

text \<open>
  \<open>io.on('connection', ...)\<close>, lines 129 to 133: a fresh closure and activity record, for a
  socket that the transport has put into the room of its own id.
\<close>

definition connection :: "string \<Rightarrow> int \<Rightarrow> state \<Rightarrow> state" where
  "connection c now st =
     initializeUserActivity c now
       (socket_join c c
          (st\<lparr>currentRoomId := (currentRoomId st)(c := None), connected := insert c (connected st)\<rparr>))"

text \<open>\<open>socket.leave(currentRoomId)\<close> under \<open>if (currentRoomId)\<close>, line 150.\<close>

definition socketLeaveCurrent :: "string \<Rightarrow> state \<Rightarrow> state" where
  "socketLeaveCurrent c st =
     (case currentRoomId st c of
        None \<Rightarrow> st
      | Some cur \<Rightarrow> if cur = [] then st else socket_leave c cur st)"

text \<open>\<open>join\<close>, lines 135 to 170.\<close>

definition joinRoom :: "string \<Rightarrow> string \<Rightarrow> state \<Rightarrow> state \<times> outbox" where
  "joinRoom c roomId st1 =
     (let (st2, out1) = leaveCurrent c (socketLeaveCurrent c st1);
          peers = set_add c (members st2 roomId);
          st3 = socket_join c roomId
                  (st2\<lparr>roomIdToSocketIds := AList.update roomId peers (roomIdToSocketIds st2),
                       currentRoomId := (currentRoomId st2)(c := Some roomId)\<rparr>);
          existingPeers = filter (\<lambda>id. id \<noteq> c) peers
      in (st3, out1 @ socket_emit c (PeersList existingPeers)
                    @ socket_to st3 roomId c (PeerJoined c)))"

definition join :: "string \<Rightarrow> jsval \<Rightarrow> int \<Rightarrow> state \<Rightarrow> state \<times> outbox" where
  "join c roomId now st =
     (if roomIdRejected roomId then (st, socket_emit c (Error ''room'' InvalidRoomId))
      else case roomId of
        JStr r \<Rightarrow>
          (case checkRoomJoinRate c now st of
             (False, st1) \<Rightarrow> (st1, socket_emit c (Error ''room'' RoomJoinLimit))
           | (True, st1) \<Rightarrow> joinRoom c r st1)
      | _ \<Rightarrow> (st, socket_emit c (Error ''room'' InvalidRoomId)))"

text \<open>\<open>leave\<close>, lines 172 to 189.\<close>

definition leave :: "string \<Rightarrow> jsval \<Rightarrow> state \<Rightarrow> state \<times> outbox" where
  "leave c roomId st =
     (if roomIdRejected roomId then (st, socket_emit c (Error ''room'' InvalidRoomId))
      else case roomId of
        JStr r \<Rightarrow>
          (let (st1, out) = removePeer c r st;
               st2 = socket_leave c r st1;
               cur1 = (if currentRoomId st2 c = Some r then (currentRoomId st2)(c := None)
                       else currentRoomId st2)
           in (st2\<lparr>currentRoomId := cur1, userActivity := (userActivity st2)(c := None)\<rparr>, out))
      | _ \<Rightarrow> (st, socket_emit c (Error ''room'' InvalidRoomId)))"

text \<open>
  \<open>disconnect\<close>, lines 191 to 204, run after the transport has taken the socket out of its
  rooms. The handler leaves \<open>currentRoomId\<close> as it is; the socket is no longer connected
  once it has run.
\<close>

definition disconnect :: "string \<Rightarrow> state \<Rightarrow> state \<times> outbox" where
  "disconnect c st =
     (let (st1, out) = leaveCurrent c (socket_leaveAll c st)
      in (st1\<lparr>socketIdToUserName := (socketIdToUserName st1)(c := None),
              userActivity := (userActivity st1)(c := None),
              connected := connected st1 - {c}\<rparr>, out))"

text \<open>
  \<open>signal\<close>, lines 206 to 224. The parameter \<open>{ to, data }\<close> destructures the payload, which
  throws on \<open>null\<close> and \<open>undefined\<close>; the loop stops at the first room that holds both
  sockets; line 221 reads \<open>data.type\<close> before line 222 forwards.
\<close>

fun setHas :: "string list \<Rightarrow> jsval \<Rightarrow> bool" where
  "setHas peers (JStr t) = (t \<in> set peers)"
| "setHas peers v = False"

definition signal :: "string \<Rightarrow> jsval \<Rightarrow> state \<Rightarrow> exn + (state \<times> outbox)" where
  "signal c payload st =
     (if nullish payload then Inl TypeError
      else
        let to = getProp payload ''to''; data = getProp payload ''data'' in
        if truthy to then
          (case find (\<lambda>(roomId, peers). c \<in> set peers \<and> setHas peers to) (roomIdToSocketIds st) of
             None \<Rightarrow> Inr (st, socket_emit c (Error ''signal'' PeerNotInRoom))
           | Some (targetRoom, peers) \<Rightarrow>
               if targetRoom = [] then Inr (st, socket_emit c (Error ''signal'' PeerNotInRoom))
               else if nullish data then Inl TypeError
               else (case to of
                       JStr t \<Rightarrow> Inr (st, io_to st t (Signal c data))
                     | _ \<Rightarrow> Inr (st, [])))
        else Inr (st, []))"

text \<open>
  \<open>set-user-name\<close>, lines 226 to 257. \<open>for (const peerId of peers)\<close> throws when the room of
  \<open>currentRoomId\<close> is not in the directory.
\<close>

definition set_user_name :: "string \<Rightarrow> jsval \<Rightarrow> state \<Rightarrow> exn + (state \<times> outbox)" where
  "set_user_name c payload st =
     (if nullish payload then Inl TypeError
      else
        let userName = getProp payload ''userName'' in
        if \<not> validateUserName userName
        then Inr (st, socket_emit c (Error ''username'' InvalidUserName))
        else case userName of
          JStr n \<Rightarrow>
            (let st1 = st\<lparr>socketIdToUserName := (socketIdToUserName st)(c \<mapsto> n)\<rparr> in
             if roomTruthy (currentRoomId st c) then
               (case currentRoomId st c of
                  Some cur \<Rightarrow>
                    (case map_of (roomIdToSocketIds st) cur of
                       None \<Rightarrow> Inl TypeError
                     | Some peers \<Rightarrow>
                         if list_ex (\<lambda>peerId. peerId \<noteq> c \<and> socketIdToUserName st peerId = Some n) peers
                         then Inr (st, socket_emit c (Error ''username'' UserNameTaken))
                         else Inr (st1, socket_to st1 cur c (UserNameSet c n)
                                        @ socket_emit c (UserNameSet c n)))
                | None \<Rightarrow> Inr (st1, []))
             else Inr (st1, []))
        | _ \<Rightarrow> Inr (st, socket_emit c (Error ''username'' InvalidUserName)))"

text \<open>
  \<open>chat-message\<close>, lines 259 to 282. The parameter \<open>{ text, timestamp }\<close> reads these two
  properties of the payload and no other. The guest label of line 260 is a Cyrillic word,
  kept here as the bytes of its UTF-8 encoding in the source file.
\<close>

definition guestLabel :: string where
  "guestLabel = [CHR 0xD0, CHR 0x93, CHR 0xD0, CHR 0xBE, CHR 0xD1, CHR 0x81, CHR 0xD1, CHR 0x82,
                 CHR 0xD1, CHR 0x8C]"

definition resolveAuthor :: "state \<Rightarrow> string \<Rightarrow> string" where
  "resolveAuthor st c =
     (case socketIdToUserName st c of
        None \<Rightarrow> guestLabel
      | Some n \<Rightarrow> if n = [] then guestLabel else n)"

definition chat_message :: "string \<Rightarrow> jsval \<Rightarrow> int \<Rightarrow> state \<Rightarrow> exn + (state \<times> outbox)" where
  "chat_message c payload now st =
     (if nullish payload then Inl TypeError
      else
        let text = getProp payload ''text''; timestamp = getProp payload ''timestamp'';
            author = resolveAuthor st c in
        if \<not> validateMessage text then Inr (st, socket_emit c (Error ''chat'' InvalidMessage))
        else case checkMessageRate c now st of
          (False, st1) \<Rightarrow> Inr (st1, socket_emit c (Error ''chat'' MessageLimit))
        | (True, st1) \<Rightarrow>
            (case text of
               JStr t \<Rightarrow>
                 (case currentRoomId st1 c of
                    None \<Rightarrow> Inr (st1, [])
                  | Some cur \<Rightarrow>
                      if cur = [] then Inr (st1, [])
                      else Inr (st1, socket_to st1 cur c (ChatMessage author t timestamp)))
             | _ \<Rightarrow> Inr (st1, [])))"

subsection \<open>Events and reachable states\<close>

datatype event =
    Connection string int
  | Join string jsval int
  | Leave string jsval
  | Disconnect string
  | SignalEv string jsval
  | SetUserName string jsval
  | ChatMessageEv string jsval int

fun handle :: "event \<Rightarrow> state \<Rightarrow> exn + (state \<times> outbox)" where
  "handle (Connection c now) st = Inr (connection c now st, [])"
| "handle (Join c roomId now) st = Inr (join c roomId now st)"
| "handle (Leave c roomId) st = Inr (leave c roomId st)"
| "handle (Disconnect c) st = Inr (disconnect c st)"
| "handle (SignalEv c payload) st = signal c payload st"
| "handle (SetUserName c payload) st = set_user_name c payload st"
| "handle (ChatMessageEv c payload now) st = chat_message c payload now st"

text \<open>
  A socket connects once while it is not connected, and only a connected socket delivers
  events, \<open>disconnect\<close> being its last.
\<close>

fun enabled :: "event \<Rightarrow> state \<Rightarrow> bool" where
  "enabled (Connection c now) st = (c \<notin> connected st)"
| "enabled (Join c roomId now) st = (c \<in> connected st)"
| "enabled (Leave c roomId) st = (c \<in> connected st)"
| "enabled (Disconnect c) st = (c \<in> connected st)"
| "enabled (SignalEv c payload) st = (c \<in> connected st)"
| "enabled (SetUserName c payload) st = (c \<in> connected st)"
| "enabled (ChatMessageEv c payload now) st = (c \<in> connected st)"

inductive reachable :: "state \<Rightarrow> bool" where
  reachable_init: "reachable init_state"
| reachable_step: "reachable st \<Longrightarrow> enabled ev st \<Longrightarrow> handle ev st = Inr (st1, out) \<Longrightarrow> reachable st1"

text \<open>Running a list of events from a state, collecting what is sent; an exception stops the run.\<close>

fun run :: "event list \<Rightarrow> state \<Rightarrow> exn + (state \<times> outbox)" where
  "run [] st = Inr (st, [])"
| "run (ev # evs) st =
     (case handle ev st of
        Inl e \<Rightarrow> Inl e
      | Inr (st1, out1) \<Rightarrow>
          (case run evs st1 of
             Inl e \<Rightarrow> Inl e
           | Inr (st2, out2) \<Rightarrow> Inr (st2, out1 @ out2)))"

subsection \<open>Vocabulary of the properties\<close>

text \<open>The state in which a list of events, run from the start of the server, ends.\<close>

definition final :: "event list \<Rightarrow> state" where
  "final evs = (case run evs init_state of Inl e \<Rightarrow> init_state | Inr (st, out) \<Rightarrow> st)"

fun isConnectionOf :: "string \<Rightarrow> event \<Rightarrow> bool" where
  "isConnectionOf c (Connection d now) = (d = c)"
| "isConnectionOf c ev = False"

text \<open>An outbox tells socket \<open>c\<close> that one of the two rate limits refused it.\<close>

definition rateLimited :: "string \<Rightarrow> outbox \<Rightarrow> bool" where
  "rateLimited c out =
     ((c, Error ''chat'' MessageLimit) \<in> set out \<or> (c, Error ''room'' RoomJoinLimit) \<in> set out)"

text \<open>What a list of events, run from the start of the server, sends.\<close>

definition sent :: "event list \<Rightarrow> outbox" where
  "sent evs = (case run evs init_state of Inl e \<Rightarrow> [] | Inr (st, out) \<Rightarrow> out)"

text \<open>Every event of the list is enabled when its turn comes and no handler throws.\<close>

fun feasible :: "event list \<Rightarrow> state \<Rightarrow> bool" where
  "feasible [] st = True"
| "feasible (ev # evs) st =
     (enabled ev st \<and>
      (case handle ev st of Inl e \<Rightarrow> False | Inr (st1, out) \<Rightarrow> feasible evs st1))"





text \<open>No entry of the directory has an empty member set.\<close>

definition no_empty_room :: "state \<Rightarrow> bool" where
  "no_empty_room st = list_all (\<lambda>(r, ps). ps \<noteq> []) (roomIdToSocketIds st)"

text \<open>
  Invariants of the reachable states: room keys are non-empty strings and member sets are
  non-empty and without repetition; a connected socket is a member of the room its
  \<open>currentRoomId\<close> names.
\<close>

definition inv_rooms :: "state \<Rightarrow> bool" where
  "inv_rooms st =
     (\<forall>(r, ps) \<in> set (roomIdToSocketIds st). r \<noteq> [] \<and> ps \<noteq> [] \<and> distinct ps)"

definition inv_cur :: "state \<Rightarrow> bool" where
  "inv_cur st =
     (\<forall>c \<in> connected st. \<forall>r. currentRoomId st c = Some r \<longrightarrow> c \<in> set (members st r))"

text \<open>Event lists used as concrete inputs.\<close>

definition leave_scenario :: "event list" where
  "leave_scenario = [Connection ''A'' 0, Leave ''A'' (JStr ''room_1'')]"

definition spacing_scenario :: "event list" where
  "spacing_scenario =
     [Connection ''A'' 0, Connection ''B'' 0,
      Join ''A'' (JStr ''room_1'') 1, Join ''B'' (JStr ''room_1'') 2,
      ChatMessageEv ''A'' (JObj [(''text'', JStr ''hello''), (''timestamp'', JNum 5000)]) 5000,
      ChatMessageEv ''A'' (JObj [(''text'', JStr ''hello again''), (''timestamp'', JNum 5001)]) 5001]"

definition author_scenario :: "event list" where
  "author_scenario =
     [Connection ''A'' 0, Connection ''B'' 0,
      Join ''A'' (JStr ''room_1'') 1, Join ''B'' (JStr ''room_1'') 2,
      SetUserName ''A'' (JObj [(''userName'', JStr ''Alice'')])]"

text \<open>The directory holds one entry per room id, as a \<open>Map\<close> does.\<close>

text \<open>
  The transport's rooms and the directory: no socket is twice in a room; the members the
  directory lists for a room id are in the transport's room of that name; and whoever else
  is in that room of the transport is the socket whose id is the name.
\<close>

definition inv_adapter :: "state \<Rightarrow> bool" where
  "inv_adapter st =
     ((\<forall>r. distinct (adapterRooms st r)) \<and>
      (\<forall>r p. p \<in> set (members st r) \<longrightarrow> p \<in> set (adapterRooms st r)) \<and>
      (\<forall>r p. p \<in> set (adapterRooms st r) \<longrightarrow> p = r \<or> p \<in> set (members st r)))"


text \<open>
  The members of a room are connected sockets whose \<open>currentRoomId\<close> names that room; so a
  socket is in at most one room, the one it currently occupies.
\<close>

definition inv_members :: "state \<Rightarrow> bool" where
  "inv_members st =
     (\<forall>r p. p \<in> set (members st r) \<longrightarrow> p \<in> connected st \<and> currentRoomId st p = Some r)"

definition solo_scenario :: "event list" where
  "solo_scenario = [Connection ''A'' 0, Join ''A'' (JStr ''room_1'') 1]"

definition signal_scenario :: "event list" where
  "signal_scenario =
     [Connection ''A'' 0, Connection ''B'' 0, Connection ''C'' 0,
      Join ''A'' (JStr ''room_1'') 1, Join ''B'' (JStr ''room_1'') 2, Join ''C'' (JStr ''room_2'') 3]"

definition trio_scenario :: "event list" where
  "trio_scenario =
     [Connection ''A'' 0, Connection ''B'' 0, Connection ''C'' 0,
      Join ''A'' (JStr ''room_1'') 1, Join ''B'' (JStr ''room_1'') 2, Join ''C'' (JStr ''room_1'') 3,
      SetUserName ''A'' (JObj [(''userName'', JStr ''Alice'')])]"

definition names_scenario :: "event list" where
  "names_scenario =
     [Connection ''A'' 0, Connection ''B'' 0, Connection ''C'' 0,
      Join ''A'' (JStr ''room_1'') 1, Join ''B'' (JStr ''room_1'') 2, Join ''C'' (JStr ''room_2'') 3,
      SetUserName ''A'' (JObj [(''userName'', JStr ''Alice'')])]"

text \<open>
  Socket \<open>sockA\<close> joins the room that has the id of \<open>sockB\<close> as its name, while \<open>sockB\<close> and
  \<open>sockC\<close> share \<open>room_1\<close>; and socket \<open>sockB\<close> leaves the room that has its own id as its
  name, while it shares \<open>room_1\<close> with \<open>sockC\<close>.
\<close>

definition eavesdrop_scenario :: "event list" where
  "eavesdrop_scenario =
     [Connection ''sockA'' 0, Connection ''sockB'' 0, Connection ''sockC'' 0,
      Join ''sockB'' (JStr ''room_1'') 1, Join ''sockC'' (JStr ''room_1'') 2,
      Join ''sockA'' (JStr ''sockB'') 3]"

definition own_room_left_scenario :: "event list" where
  "own_room_left_scenario =
     [Connection ''sockB'' 0, Connection ''sockC'' 0,
      Join ''sockB'' (JStr ''room_1'') 1, Join ''sockC'' (JStr ''room_1'') 2,
      Leave ''sockB'' (JStr ''sockB'')]"

text \<open>A session description as the payload of a \<open>signal\<close>, and a \<open>set-user-name\<close> payload.\<close>

definition offer :: jsval where
  "offer = JObj [(''type'', JStr ''offer''), (''sdp'', JStr ''v=0'')]"

definition alice :: jsval where
  "alice = JObj [(''userName'', JStr ''Alice'')]"

section \<open>Properties\<close>

lemmas scen_defs = sent_def leave_scenario_def spacing_scenario_def author_scenario_def
  solo_scenario_def signal_scenario_def trio_scenario_def names_scenario_def offer_def alice_def
  eavesdrop_scenario_def own_room_left_scenario_def

lemmas eval_defs = final_def connection_def join_def joinRoom_def leave_def disconnect_def
  leaveCurrent_def removePeer_def signal_def set_user_name_def chat_message_def
  checkMessageRate_def checkRoomJoinRate_def initializeUserActivity_def init_state_def
  socket_emit_def socket_to_def io_to_def members_def set_add_def set_delete_def
  socket_join_def socket_leave_def socket_leaveAll_def socketLeaveCurrent_def
  roomIdRejected_def roomIdChar_def lowerChars_def upperChars_def digitChars_def
  validateMessage_def validateUserName_def trim_def isWhiteSpace_def isLineTerminator_def
  regexTest_def spamPatterns_def runAt_def invalidChars_def resolveAuthor_def received_def
  MAX_MESSAGES_PER_MINUTE_def MAX_ROOMS_PER_HOUR_def MIN_TIME_BETWEEN_MESSAGES_def
  MAX_MESSAGE_LENGTH_def MAX_USERNAME_LENGTH_def Let_def

subsection \<open>The transport's operations change its rooms only\<close>

lemma socket_join_frame [simp]:
  "roomIdToSocketIds (socket_join c r st) = roomIdToSocketIds st"
  "socketIdToUserName (socket_join c r st) = socketIdToUserName st"
  "userActivity (socket_join c r st) = userActivity st"
  "currentRoomId (socket_join c r st) = currentRoomId st"
  "connected (socket_join c r st) = connected st"
  "members (socket_join c r st) r' = members st r'"
  by (simp_all add: socket_join_def members_def)

lemma socket_leave_frame [simp]:
  "roomIdToSocketIds (socket_leave c r st) = roomIdToSocketIds st"
  "socketIdToUserName (socket_leave c r st) = socketIdToUserName st"
  "userActivity (socket_leave c r st) = userActivity st"
  "currentRoomId (socket_leave c r st) = currentRoomId st"
  "connected (socket_leave c r st) = connected st"
  "members (socket_leave c r st) r' = members st r'"
  by (simp_all add: socket_leave_def members_def)

lemma socket_leaveAll_frame [simp]:
  "roomIdToSocketIds (socket_leaveAll c st) = roomIdToSocketIds st"
  "socketIdToUserName (socket_leaveAll c st) = socketIdToUserName st"
  "userActivity (socket_leaveAll c st) = userActivity st"
  "currentRoomId (socket_leaveAll c st) = currentRoomId st"
  "connected (socket_leaveAll c st) = connected st"
  "members (socket_leaveAll c st) r' = members st r'"
  by (simp_all add: socket_leaveAll_def members_def)

lemma socketLeaveCurrent_frame [simp]:
  "roomIdToSocketIds (socketLeaveCurrent c st) = roomIdToSocketIds st"
  "socketIdToUserName (socketLeaveCurrent c st) = socketIdToUserName st"
  "userActivity (socketLeaveCurrent c st) = userActivity st"
  "currentRoomId (socketLeaveCurrent c st) = currentRoomId st"
  "connected (socketLeaveCurrent c st) = connected st"
  "members (socketLeaveCurrent c st) r' = members st r'"
  by (simp_all add: socketLeaveCurrent_def split: option.splits)

lemma socket_adapterRooms:
  "adapterRooms (socket_join c r st) r' =
     (if r' = r then set_add c (adapterRooms st r) else adapterRooms st r')"
  "adapterRooms (socket_leave c r st) r' =
     (if r' = r then removeAll c (adapterRooms st r) else adapterRooms st r')"
  "adapterRooms (socket_leaveAll c st) r' = removeAll c (adapterRooms st r')"
  "adapterRooms (socketLeaveCurrent c st) r' =
     (if currentRoomId st c = Some r' \<and> r' \<noteq> [] then removeAll c (adapterRooms st r')
      else adapterRooms st r')"
  by (auto simp: socket_join_def socket_leave_def socket_leaveAll_def socketLeaveCurrent_def
                 set_delete_def split: option.splits)

subsection \<open>What the handlers send and what they do to the activity records\<close>

lemma socket_to_msg: "(q, m') \<in> set (socket_to st r d m) \<Longrightarrow> m' = m"
  by (auto simp: socket_to_def)

lemma removePeer_out: "(q, m) \<in> set (snd (removePeer d r st)) \<Longrightarrow> m = PeerLeft d"
  by (auto simp: removePeer_def Let_def socket_to_def split: option.splits if_splits)

lemma leaveCurrent_out: "(q, m) \<in> set (snd (leaveCurrent d st)) \<Longrightarrow> m = PeerLeft d"
  by (auto simp: leaveCurrent_def dest: removePeer_out split: option.splits if_splits)

lemma joinRoom_out:
  "(q, m) \<in> set (snd (joinRoom d r st)) \<Longrightarrow>
     m = PeerLeft d \<or> m = PeerJoined d \<or> (\<exists>ps. m = PeersList ps)"
  by (auto simp: joinRoom_def Let_def socket_emit_def case_prod_beta
           dest: socket_to_msg leaveCurrent_out)

lemma removePeer_activity: "userActivity (fst (removePeer d r st)) = userActivity st"
  by (simp add: removePeer_def Let_def split: option.splits)

lemma leaveCurrent_activity: "userActivity (fst (leaveCurrent d st)) = userActivity st"
  by (simp add: leaveCurrent_def removePeer_activity split: option.splits)

lemma joinRoom_activity: "userActivity (fst (joinRoom d r st)) = userActivity st"
  using leaveCurrent_activity[of d "socketLeaveCurrent d st"]
  by (simp add: joinRoom_def Let_def case_prod_beta)

lemma checkRoomJoinRate_none:
  "userActivity st c = None \<Longrightarrow> userActivity (snd (checkRoomJoinRate d now st)) c = None"
  by (auto simp: checkRoomJoinRate_def Let_def split: option.splits)

lemma checkMessageRate_none:
  "userActivity st c = None \<Longrightarrow> userActivity (snd (checkMessageRate d now st)) c = None"
  by (auto simp: checkMessageRate_def Let_def split: option.splits)

lemma checks_without_record:
  "userActivity st c = None \<Longrightarrow>
     checkMessageRate c now st = (True, st) \<and> checkRoomJoinRate c now st = (True, st)"
  by (simp add: checkMessageRate_def checkRoomJoinRate_def)

lemma roomId_accepted_is_string: "\<not> roomIdRejected roomId \<Longrightarrow> \<exists>r. roomId = JStr r"
  by (cases roomId) (auto simp: roomIdRejected_def)

subsection \<open>A socket without an activity record is never rate-limited\<close>

lemma join_no_record:
  assumes "userActivity st c = None"
  shows "userActivity (fst (join d roomId now st)) c = None
         \<and> \<not> rateLimited c (snd (join d roomId now st))"
proof (cases "roomIdRejected roomId")
  case True
  then show ?thesis using assms by (simp add: join_def rateLimited_def socket_emit_def)
next
  case False
  then obtain r where r: "roomId = JStr r" using roomId_accepted_is_string by blast
  obtain ok st1 where chk: "checkRoomJoinRate d now st = (ok, st1)"
    by (cases "checkRoomJoinRate d now st")
  have st1: "userActivity st1 c = None"
    using checkRoomJoinRate_none[OF assms, of d now] chk by simp
  show ?thesis
  proof (cases ok)
    case True
    have "\<not> rateLimited c (snd (joinRoom d r st1))"
      by (auto simp: rateLimited_def dest: joinRoom_out)
    then show ?thesis using False r chk True st1 by (simp add: join_def joinRoom_activity)
  next
    case refused: False
    have "d \<noteq> c" using refused chk checks_without_record[OF assms, of now] by auto
    then show ?thesis using False r chk refused st1
      by (simp add: join_def rateLimited_def socket_emit_def)
  qed
qed

lemma leave_no_record:
  assumes "userActivity st c = None"
  shows "userActivity (fst (leave d roomId st)) c = None
         \<and> \<not> rateLimited c (snd (leave d roomId st))"
proof (cases "roomIdRejected roomId")
  case True
  then show ?thesis using assms by (simp add: leave_def rateLimited_def socket_emit_def)
next
  case False
  then obtain r where r: "roomId = JStr r" using roomId_accepted_is_string by blast
  have "\<not> rateLimited c (snd (removePeer d r st))"
    by (auto simp: rateLimited_def dest: removePeer_out)
  then show ?thesis using False r assms removePeer_activity[of d r st]
    by (simp add: leave_def Let_def case_prod_beta)
qed

lemma disconnect_no_record:
  assumes "userActivity st c = None"
  shows "userActivity (fst (disconnect d st)) c = None
         \<and> \<not> rateLimited c (snd (disconnect d st))"
proof -
  have "\<not> rateLimited c (snd (leaveCurrent d (socket_leaveAll d st)))"
    by (auto simp: rateLimited_def dest: leaveCurrent_out)
  then show ?thesis using assms leaveCurrent_activity[of d "socket_leaveAll d st"]
    by (simp add: disconnect_def Let_def case_prod_beta)
qed

lemma signal_no_record:
  assumes "userActivity st c = None" "signal d payload st = Inr (st', out)"
  shows "userActivity st' c = None \<and> \<not> rateLimited c out"
  using assms
  by (auto simp: signal_def Let_def rateLimited_def socket_emit_def io_to_def
           split: if_splits option.splits prod.splits jsval.splits)

lemma set_user_name_no_record:
  assumes "userActivity st c = None" "set_user_name d payload st = Inr (st', out)"
  shows "userActivity st' c = None \<and> \<not> rateLimited c out"
  using assms
  by (auto simp: set_user_name_def Let_def rateLimited_def socket_emit_def
           dest: socket_to_msg split: if_splits option.splits prod.splits jsval.splits)

lemma chat_message_no_record:
  assumes "userActivity st c = None" "chat_message d payload now st = Inr (st', out)"
  shows "userActivity st' c = None \<and> \<not> rateLimited c out"
proof -
  obtain ok st1 where chk: "checkMessageRate d now st = (ok, st1)"
    by (cases "checkMessageRate d now st")
  have st1: "userActivity st1 c = None"
    using checkMessageRate_none[OF assms(1), of d now] chk by simp
  have dc: "\<not> ok \<Longrightarrow> d \<noteq> c" using chk checks_without_record[OF assms(1), of now] by auto
  show ?thesis using assms chk st1 dc
    by (auto simp: chat_message_def Let_def rateLimited_def socket_emit_def
             dest: socket_to_msg split: if_splits option.splits jsval.splits bool.splits)
qed

lemma handle_no_record:
  assumes "userActivity st c = None" "\<not> isConnectionOf c ev" "handle ev st = Inr (st', out)"
  shows "userActivity st' c = None \<and> \<not> rateLimited c out"
proof (cases ev)
  case (Connection d now)
  then show ?thesis using assms
    by (auto simp: connection_def initializeUserActivity_def rateLimited_def)
next
  case (Join d roomId now)
  then show ?thesis using assms join_no_record[OF assms(1), of d roomId now] by auto
next
  case (Leave d roomId)
  then show ?thesis using assms leave_no_record[OF assms(1), of d roomId] by auto
next
  case (Disconnect d)
  then show ?thesis using assms disconnect_no_record[OF assms(1), of d] by auto
next
  case (SignalEv d payload)
  then show ?thesis using assms signal_no_record[OF assms(1)] by auto
next
  case (SetUserName d payload)
  then show ?thesis using assms set_user_name_no_record[OF assms(1)] by auto
next
  case (ChatMessageEv d payload now)
  then show ?thesis using assms chat_message_no_record[OF assms(1)] by auto
qed

lemma rateLimited_append: "rateLimited c (xs @ ys) = (rateLimited c xs \<or> rateLimited c ys)"
  by (auto simp: rateLimited_def)

lemma run_no_record:
  "userActivity st c = None \<Longrightarrow> list_all (\<lambda>ev. \<not> isConnectionOf c ev) evs \<Longrightarrow>
   run evs st = Inr (st', out) \<Longrightarrow> userActivity st' c = None \<and> \<not> rateLimited c out"
proof (induction evs arbitrary: st st' out)
  case Nil
  then show ?case by (simp add: rateLimited_def)
next
  case (Cons ev evs)
  from Cons.prems(3) obtain st1 out1 st2 out2 where
    h: "handle ev st = Inr (st1, out1)" and r: "run evs st1 = Inr (st2, out2)" and
    e: "st' = st2" "out = out1 @ out2"
    by (auto split: sum.splits prod.splits)
  from Cons.prems(2) have nc: "\<not> isConnectionOf c ev"
    and rest: "list_all (\<lambda>ev. \<not> isConnectionOf c ev) evs" by simp_all
  from handle_no_record[OF Cons.prems(1) nc h]
  have a: "userActivity st1 c = None" "\<not> rateLimited c out1" by simp_all
  from Cons.IH[OF a(1) rest r] e a(2) show ?case by (simp add: rateLimited_append)
qed

subsection \<open>Runs and reachability\<close>

lemma reachable_run:
  "reachable st \<Longrightarrow> feasible evs st \<Longrightarrow> run evs st = Inr (st', out) \<Longrightarrow> reachable st'"
proof (induction evs arbitrary: st st' out)
  case Nil
  then show ?case by simp
next
  case (Cons ev evs)
  from Cons.prems(2) obtain st1 out1 where h: "handle ev st = Inr (st1, out1)"
    and en: "enabled ev st" and f: "feasible evs st1"
    by (auto split: sum.splits)
  from Cons.prems(3) h obtain out2 where r: "run evs st1 = Inr (st', out2)"
    by (auto split: sum.splits)
  have "reachable st1" using reachable_step[OF Cons.prems(1) en h] .
  from Cons.IH[OF this f r] show ?case .
qed

lemma reachable_final: "feasible evs init_state \<Longrightarrow> reachable (final evs)"
  using reachable_run[OF reachable_init, of evs] reachable_init
  by (auto simp: final_def split: sum.splits)

subsection \<open>Invariants of the reachable states\<close>

lemma set_update_subset: "set (AList.update k v al) \<subseteq> insert (k, v) (set al)"
  by (induction al) auto

lemma set_delete_subset: "set (AList.delete k al) \<subseteq> set al"
  by (induction al) auto

lemma removePeer_frame:
  "currentRoomId (fst (removePeer c r st)) = currentRoomId st"
  "connected (fst (removePeer c r st)) = connected st"
  "socketIdToUserName (fst (removePeer c r st)) = socketIdToUserName st"
  "adapterRooms (fst (removePeer c r st)) = adapterRooms st"
  by (simp_all add: removePeer_def Let_def split: option.splits)

lemma removePeer_members:
  "members (fst (removePeer c r st)) r' = (if r' = r then removeAll c (members st r) else members st r')"
  by (auto simp: removePeer_def members_def Let_def set_delete_def update_conv' delete_conv' split: option.splits)

lemma removePeer_out_eq:
  "snd (removePeer c r st) =
     (case map_of (roomIdToSocketIds st) r of
        None \<Rightarrow> []
      | Some ps \<Rightarrow> map (\<lambda>p. (p, PeerLeft c)) (filter (\<lambda>p. p \<noteq> c) (adapterRooms st r)))"
  by (auto simp: removePeer_def Let_def socket_to_def split: option.splits)

lemma removePeer_inv_rooms: "inv_rooms st \<Longrightarrow> inv_rooms (fst (removePeer c r st))"
proof (cases "map_of (roomIdToSocketIds st) r")
  case None
  assume "inv_rooms st"
  then show ?thesis using None by (simp add: removePeer_def)
next
  case (Some ps)
  assume inv: "inv_rooms st"
  have mem: "(r, ps) \<in> set (roomIdToSocketIds st)" using Some by (rule map_of_SomeD)
  then have r: "r \<noteq> []" and d: "distinct ps" using inv by (auto simp: inv_rooms_def)
  show ?thesis
  proof (cases "removeAll c ps = []")
    case True
    then show ?thesis using Some inv set_delete_subset[of r "roomIdToSocketIds st"]
      by (auto simp: removePeer_def Let_def set_delete_def inv_rooms_def delete_update_same)
  next
    case False
    then show ?thesis using Some inv r d set_update_subset[of r "removeAll c ps" "roomIdToSocketIds st"]
      by (auto simp: removePeer_def Let_def set_delete_def inv_rooms_def distinct_removeAll)
  qed
qed

lemma leaveCurrent_frame:
  "currentRoomId (fst (leaveCurrent c st)) = currentRoomId st"
  "connected (fst (leaveCurrent c st)) = connected st"
  "socketIdToUserName (fst (leaveCurrent c st)) = socketIdToUserName st"
  "adapterRooms (fst (leaveCurrent c st)) = adapterRooms st"
  by (simp_all add: leaveCurrent_def removePeer_frame split: option.splits)

lemma leaveCurrent_members_subset:
  "d \<noteq> c \<Longrightarrow> d \<in> set (members st r) \<Longrightarrow> d \<in> set (members (fst (leaveCurrent c st)) r)"
  by (auto simp: leaveCurrent_def removePeer_members split: option.splits)

lemma leaveCurrent_inv_rooms: "inv_rooms st \<Longrightarrow> inv_rooms (fst (leaveCurrent c st))"
  by (auto simp: leaveCurrent_def removePeer_inv_rooms split: option.splits)

lemma members_distinct: "inv_rooms st \<Longrightarrow> distinct (members st r)"
  by (auto simp: inv_rooms_def members_def split: option.splits dest: map_of_SomeD)

lemma joinRoom_frame:
  "connected (fst (joinRoom c r st)) = connected st"
  "currentRoomId (fst (joinRoom c r st)) = (currentRoomId st)(c := Some r)"
  "socketIdToUserName (fst (joinRoom c r st)) = socketIdToUserName st"
  by (simp_all add: joinRoom_def Let_def case_prod_beta leaveCurrent_frame)

lemma leaveCurrent_rooms_cong:
  "roomIdToSocketIds st' = roomIdToSocketIds st \<Longrightarrow> currentRoomId st' c = currentRoomId st c \<Longrightarrow>
   roomIdToSocketIds (fst (leaveCurrent c st')) = roomIdToSocketIds (fst (leaveCurrent c st))"
  by (auto simp: leaveCurrent_def removePeer_def Let_def split: option.splits)

lemma leaveCurrent_after_socket_leave [simp]:
  "roomIdToSocketIds (fst (leaveCurrent c (socketLeaveCurrent c st)))
     = roomIdToSocketIds (fst (leaveCurrent c st))"
  "roomIdToSocketIds (fst (leaveCurrent c (socket_leaveAll c st)))
     = roomIdToSocketIds (fst (leaveCurrent c st))"
  by (rule leaveCurrent_rooms_cong; simp)+

lemma leaveCurrent_after_socket_leave_members [simp]:
  "members (fst (leaveCurrent c (socketLeaveCurrent c st))) r = members (fst (leaveCurrent c st)) r"
  "members (fst (leaveCurrent c (socket_leaveAll c st))) r = members (fst (leaveCurrent c st)) r"
  by (simp_all add: members_def)

lemma joinRoom_members:
  "members (fst (joinRoom c r st)) r' =
     (if r' = r then set_add c (members (fst (leaveCurrent c st)) r)
      else members (fst (leaveCurrent c st)) r')"
  by (simp add: joinRoom_def Let_def case_prod_beta members_def update_conv')

lemma joinRoom_inv_rooms:
  assumes "inv_rooms st" "r \<noteq> []"
  shows "inv_rooms (fst (joinRoom c r st))"
proof -
  let ?st2 = "fst (leaveCurrent c st)"
  have i2: "inv_rooms ?st2" using assms(1) by (rule leaveCurrent_inv_rooms)
  have d: "distinct (set_add c (members ?st2 r))" using members_distinct[OF i2, of r]
    by (simp add: set_add_def)
  have n: "set_add c (members ?st2 r) \<noteq> []" by (auto simp: set_add_def)
  show ?thesis using i2 d n assms(2)
      set_update_subset[of r "set_add c (members ?st2 r)" "roomIdToSocketIds ?st2"]
    by (auto simp: joinRoom_def Let_def case_prod_beta inv_rooms_def)
qed

lemma joinRoom_inv_cur:
  assumes "inv_cur st"
  shows "inv_cur (fst (joinRoom c r st))"
  unfolding inv_cur_def
proof (intro ballI allI impI)
  fix d r'
  assume d: "d \<in> connected (fst (joinRoom c r st))"
    and cur: "currentRoomId (fst (joinRoom c r st)) d = Some r'"
  show "d \<in> set (members (fst (joinRoom c r st)) r')"
  proof (cases "d = c")
    case True
    then show ?thesis using cur by (simp add: joinRoom_frame joinRoom_members set_add_def)
  next
    case False
    then have "currentRoomId st d = Some r'" "d \<in> connected st" using cur d by (simp_all add: joinRoom_frame)
    then have "d \<in> set (members st r')" using assms by (auto simp: inv_cur_def)
    then have "d \<in> set (members (fst (leaveCurrent c st)) r')" using False by (rule leaveCurrent_members_subset[rotated])
    then show ?thesis by (auto simp: joinRoom_members set_add_def)
  qed
qed

lemma checkRoomJoinRate_frame:
  "roomIdToSocketIds (snd (checkRoomJoinRate c now st)) = roomIdToSocketIds st"
  "currentRoomId (snd (checkRoomJoinRate c now st)) = currentRoomId st"
  "connected (snd (checkRoomJoinRate c now st)) = connected st"
  "socketIdToUserName (snd (checkRoomJoinRate c now st)) = socketIdToUserName st"
  "adapterRooms (snd (checkRoomJoinRate c now st)) = adapterRooms st"
  by (simp_all add: checkRoomJoinRate_def Let_def split: option.splits)

lemma checkMessageRate_frame:
  "roomIdToSocketIds (snd (checkMessageRate c now st)) = roomIdToSocketIds st"
  "currentRoomId (snd (checkMessageRate c now st)) = currentRoomId st"
  "connected (snd (checkMessageRate c now st)) = connected st"
  "socketIdToUserName (snd (checkMessageRate c now st)) = socketIdToUserName st"
  "adapterRooms (snd (checkMessageRate c now st)) = adapterRooms st"
  by (simp_all add: checkMessageRate_def Let_def split: option.splits)

lemma inv_rooms_cong: "roomIdToSocketIds st' = roomIdToSocketIds st \<Longrightarrow> inv_rooms st' = inv_rooms st"
  by (simp add: inv_rooms_def)

lemma inv_cur_cong:
  "roomIdToSocketIds st' = roomIdToSocketIds st \<Longrightarrow> currentRoomId st' = currentRoomId st \<Longrightarrow>
   connected st' = connected st \<Longrightarrow> inv_cur st' = inv_cur st"
  by (simp add: inv_cur_def members_def)

lemma roomId_accepted_nonempty: "\<not> roomIdRejected (JStr r) \<Longrightarrow> r \<noteq> []"
  by (auto simp: roomIdRejected_def)

lemma join_inv:
  assumes "inv_rooms st" "inv_cur st"
  shows "inv_rooms (fst (join c roomId now st)) \<and> inv_cur (fst (join c roomId now st))"
proof (cases "roomIdRejected roomId")
  case True
  then show ?thesis using assms by (simp add: join_def)
next
  case False
  then obtain r where r: "roomId = JStr r" by (cases roomId) (auto simp: roomIdRejected_def)
  then have rne: "r \<noteq> []" using False roomId_accepted_nonempty by blast
  obtain ok st1 where chk: "checkRoomJoinRate c now st = (ok, st1)" by (cases "checkRoomJoinRate c now st")
  have fr: "roomIdToSocketIds st1 = roomIdToSocketIds st" "currentRoomId st1 = currentRoomId st" "connected st1 = connected st"
    using checkRoomJoinRate_frame[of c now st] chk by simp_all
  have i1: "inv_rooms st1" "inv_cur st1" using assms inv_rooms_cong[OF fr(1)] inv_cur_cong[OF fr] by simp_all
  show ?thesis using False r chk i1 joinRoom_inv_rooms[OF i1(1) rne, of c] joinRoom_inv_cur[OF i1(2), of c r]
    by (cases ok) (simp_all add: join_def)
qed

lemma leave_inv:
  assumes "inv_rooms st" "inv_cur st"
  shows "inv_rooms (fst (leave c roomId st)) \<and> inv_cur (fst (leave c roomId st))"
proof (cases "roomIdRejected roomId")
  case True
  then show ?thesis using assms by (simp add: leave_def)
next
  case False
  then obtain r where r: "roomId = JStr r" by (cases roomId) (auto simp: roomIdRejected_def)
  let ?st1 = "fst (removePeer c r st)"
  have a: "inv_rooms (fst (leave c roomId st))"
    using False r removePeer_inv_rooms[OF assms(1), of c r]
    by (simp add: leave_def Let_def case_prod_beta inv_rooms_def)
  have b: "inv_cur (fst (leave c roomId st))"
    unfolding inv_cur_def
  proof (intro ballI allI impI)
    fix d r'
    assume d: "d \<in> connected (fst (leave c roomId st))"
      and cur: "currentRoomId (fst (leave c roomId st)) d = Some r'"
    have mem: "members (fst (leave c roomId st)) r' = members ?st1 r'"
      using False r by (simp add: leave_def Let_def case_prod_beta members_def)
    have dc: "d \<in> connected st" using d False r by (simp add: leave_def Let_def case_prod_beta removePeer_frame)
    have cd: "currentRoomId st d = Some r'" and ne: "\<not> (d = c \<and> r' = r)"
      using cur False r by (auto simp: leave_def Let_def case_prod_beta removePeer_frame split: if_splits)
    from dc cd assms(2) have "d \<in> set (members st r')" by (auto simp: inv_cur_def)
    then have "d \<in> set (members ?st1 r')" using ne by (auto simp: removePeer_members)
    then show "d \<in> set (members (fst (leave c roomId st)) r')" using mem by simp
  qed
  from a b show ?thesis ..
qed

lemma disconnect_inv:
  assumes "inv_rooms st" "inv_cur st"
  shows "inv_rooms (fst (disconnect c st)) \<and> inv_cur (fst (disconnect c st))"
proof -
  let ?st1 = "fst (leaveCurrent c st)"
  have a: "inv_rooms (fst (disconnect c st))"
    using leaveCurrent_inv_rooms[OF assms(1), of c]
    by (simp add: disconnect_def Let_def case_prod_beta inv_rooms_def)
  have b: "inv_cur (fst (disconnect c st))"
    unfolding inv_cur_def
  proof (intro ballI allI impI)
    fix d r'
    assume d: "d \<in> connected (fst (disconnect c st))"
      and cur: "currentRoomId (fst (disconnect c st)) d = Some r'"
    have mem: "members (fst (disconnect c st)) r' = members ?st1 r'"
      by (simp add: disconnect_def Let_def case_prod_beta members_def)
    have dc: "d \<in> connected st" "d \<noteq> c" using d by (simp_all add: disconnect_def Let_def case_prod_beta leaveCurrent_frame)
    have cd: "currentRoomId st d = Some r'"
      using cur by (simp add: disconnect_def Let_def case_prod_beta leaveCurrent_frame)
    from dc cd assms(2) have "d \<in> set (members st r')" by (auto simp: inv_cur_def)
    then have "d \<in> set (members ?st1 r')" using dc(2) by (rule leaveCurrent_members_subset[rotated])
    then show "d \<in> set (members (fst (disconnect c st)) r')" using mem by simp
  qed
  from a b show ?thesis ..
qed

lemma connection_inv:
  assumes "inv_rooms st" "inv_cur st"
  shows "inv_rooms (connection c now st) \<and> inv_cur (connection c now st)"
  using assms by (auto simp: connection_def initializeUserActivity_def inv_rooms_def inv_cur_def members_def)

lemma signal_state: "signal c payload st = Inr (st', out) \<Longrightarrow> st' = st"
  by (auto simp: signal_def Let_def split: if_splits option.splits prod.splits jsval.splits)

lemma set_user_name_frame:
  assumes "set_user_name c payload st = Inr (st', out)"
  shows "roomIdToSocketIds st' = roomIdToSocketIds st \<and> currentRoomId st' = currentRoomId st
         \<and> connected st' = connected st \<and> adapterRooms st' = adapterRooms st"
  using assms by (auto simp: set_user_name_def Let_def split: if_splits option.splits jsval.splits)

lemma chat_message_frame:
  assumes "chat_message c payload now st = Inr (st', out)"
  shows "roomIdToSocketIds st' = roomIdToSocketIds st \<and> currentRoomId st' = currentRoomId st
         \<and> connected st' = connected st \<and> socketIdToUserName st' = socketIdToUserName st
         \<and> adapterRooms st' = adapterRooms st"
proof -
  obtain ok st1 where chk: "checkMessageRate c now st = (ok, st1)" by (cases "checkMessageRate c now st")
  have fr: "roomIdToSocketIds st1 = roomIdToSocketIds st" "currentRoomId st1 = currentRoomId st" "connected st1 = connected st"
     "socketIdToUserName st1 = socketIdToUserName st" "adapterRooms st1 = adapterRooms st"
    using checkMessageRate_frame[of c now st] chk by simp_all
  show ?thesis using assms chk fr
    by (auto simp: chat_message_def Let_def split: if_splits option.splits jsval.splits bool.splits)
qed

lemma handle_inv:
  assumes "inv_rooms st" "inv_cur st" "handle ev st = Inr (st', out)"
  shows "inv_rooms st' \<and> inv_cur st'"
proof (cases ev)
  case (Connection c now)
  then show ?thesis using assms connection_inv[OF assms(1,2), of c now] by auto
next
  case (Join c roomId now)
  then show ?thesis using assms join_inv[OF assms(1,2), of c roomId now] by auto
next
  case (Leave c roomId)
  then show ?thesis using assms leave_inv[OF assms(1,2), of c roomId] by auto
next
  case (Disconnect c)
  then show ?thesis using assms disconnect_inv[OF assms(1,2), of c] by auto
next
  case (SignalEv c payload)
  then show ?thesis using assms signal_state[of c payload st st' out] by auto
next
  case (SetUserName c payload)
  then have "set_user_name c payload st = Inr (st', out)" using assms(3) by simp
  from set_user_name_frame[OF this] show ?thesis
    using assms(1,2) inv_rooms_cong[of st' st] inv_cur_cong[of st' st] by simp
next
  case (ChatMessageEv c payload now)
  then have "chat_message c payload now st = Inr (st', out)" using assms(3) by simp
  from chat_message_frame[OF this] show ?thesis
    using assms(1,2) inv_rooms_cong[of st' st] inv_cur_cong[of st' st] by simp
qed

lemma reachable_inv: "reachable st \<Longrightarrow> inv_rooms st \<and> inv_cur st"
proof (induction rule: reachable.induct)
  case reachable_init
  then show ?case by (simp add: inv_rooms_def inv_cur_def init_state_def)
next
  case (reachable_step st ev st1 out)
  then show ?case using handle_inv by blast
qed

subsection \<open>Membership\<close>

lemma inv_rooms_no_empty: "inv_rooms st \<Longrightarrow> no_empty_room st"
  by (auto simp: inv_rooms_def no_empty_room_def list_all_iff)

lemma removePeer_last:
  "set (members st r) \<subseteq> {c} \<Longrightarrow> map_of (roomIdToSocketIds (fst (removePeer c r st))) r = None"
proof (cases "map_of (roomIdToSocketIds st) r")
  case None
  then show ?thesis by (simp add: removePeer_def)
next
  case (Some ps)
  assume "set (members st r) \<subseteq> {c}"
  then have "removeAll c ps = []" using Some by (auto simp: members_def removeAll_filter_not_eq filter_empty_conv)
  then show ?thesis using Some by (simp add: removePeer_def Let_def set_delete_def delete_conv')
qed

lemma cur_room_nonempty:
  assumes "inv_rooms st" "inv_cur st" "c \<in> connected st" "currentRoomId st c = Some r"
  shows "r \<noteq> [] \<and> c \<in> set (members st r)"
proof -
  have m: "c \<in> set (members st r)" using assms(2-4) by (auto simp: inv_cur_def)
  then obtain ps where "map_of (roomIdToSocketIds st) r = Some ps"
    by (cases "map_of (roomIdToSocketIds st) r") (auto simp: members_def)
  then have "(r, ps) \<in> set (roomIdToSocketIds st)" by (rule map_of_SomeD)
  then show ?thesis using assms(1) m by (auto simp: inv_rooms_def)
qed

lemma leaveCurrent_members:
  "members (fst (leaveCurrent c st)) r' =
     (if currentRoomId st c = Some r' \<and> r' \<noteq> [] then removeAll c (members st r') else members st r')"
  by (auto simp: leaveCurrent_def removePeer_members split: option.splits)

lemma leaveCurrent_out_eq:
  "snd (leaveCurrent c st) =
     (case currentRoomId st c of None \<Rightarrow> []
      | Some r \<Rightarrow>
          if r = [] then []
          else (case map_of (roomIdToSocketIds st) r of
                  None \<Rightarrow> []
                | Some ps \<Rightarrow>
                    map (\<lambda>p. (p, PeerLeft c)) (filter (\<lambda>p. p \<noteq> c) (adapterRooms st r))))"
  by (auto simp: leaveCurrent_def removePeer_out_eq split: option.splits)

lemma disconnect_members: "members (fst (disconnect c st)) r = members (fst (leaveCurrent c st)) r"
  by (simp add: disconnect_def Let_def case_prod_beta members_def)

lemma disconnect_out: "snd (disconnect c st) = snd (leaveCurrent c (socket_leaveAll c st))"
  by (simp add: disconnect_def Let_def case_prod_beta)

lemma members_empty_key: "inv_rooms st \<Longrightarrow> members st [] = []"
  by (auto simp: inv_rooms_def members_def split: option.splits dest: map_of_SomeD)

lemma leaveCurrent_not_member:
  assumes "inv_rooms st" "inv_members st"
  shows "c \<notin> set (members (fst (leaveCurrent c st)) r)"
proof
  assume a: "c \<in> set (members (fst (leaveCurrent c st)) r)"
  then have m: "c \<in> set (members st r)" by (auto simp: leaveCurrent_members split: if_splits)
  then have cur: "currentRoomId st c = Some r" using assms(2) by (auto simp: inv_members_def)
  have "r \<noteq> []" using m members_empty_key[OF assms(1)] by auto
  then show False using a cur by (simp add: leaveCurrent_members)
qed

lemma leaveCurrent_members_mono:
  "p \<in> set (members (fst (leaveCurrent c st)) r) \<Longrightarrow> p \<in> set (members st r)"
  by (auto simp: leaveCurrent_members split: if_splits)

lemma joinRoom_inv_members:
  assumes "inv_rooms st" "inv_members st" "c \<in> connected st"
  shows "inv_members (fst (joinRoom c r st))"
  unfolding inv_members_def
proof (intro allI impI)
  fix r' p
  assume p: "p \<in> set (members (fst (joinRoom c r st)) r')"
  show "p \<in> connected (fst (joinRoom c r st)) \<and> currentRoomId (fst (joinRoom c r st)) p = Some r'"
  proof (cases "p = c")
    case True
    have "r' = r" using p True leaveCurrent_not_member[OF assms(1,2), of c r']
      by (auto simp: joinRoom_members split: if_splits)
    then show ?thesis using True assms(3) by (simp add: joinRoom_frame)
  next
    case False
    then have "p \<in> set (members (fst (leaveCurrent c st)) r')" using p
      by (auto simp: joinRoom_members set_add_def split: if_splits)
    then have "p \<in> set (members st r')" by (rule leaveCurrent_members_mono)
    then show ?thesis using assms(2) False by (auto simp: inv_members_def joinRoom_frame)
  qed
qed

lemma inv_members_cong:
  "roomIdToSocketIds st' = roomIdToSocketIds st \<Longrightarrow> currentRoomId st' = currentRoomId st \<Longrightarrow>
   connected st' = connected st \<Longrightarrow> inv_members st' = inv_members st"
  by (simp add: inv_members_def members_def)

lemma join_inv_members:
  assumes "inv_rooms st" "inv_members st" "c \<in> connected st"
  shows "inv_members (fst (join c roomId now st))"
proof (cases "roomIdRejected roomId")
  case True
  then show ?thesis using assms by (simp add: join_def)
next
  case False
  then obtain r where r: "roomId = JStr r" using roomId_accepted_is_string by blast
  obtain ok st1 where chk: "checkRoomJoinRate c now st = (ok, st1)" by (cases "checkRoomJoinRate c now st")
  have fr: "roomIdToSocketIds st1 = roomIdToSocketIds st" "currentRoomId st1 = currentRoomId st" "connected st1 = connected st"
    using checkRoomJoinRate_frame[of c now st] chk by simp_all
  have i1: "inv_rooms st1" "inv_members st1" "c \<in> connected st1"
    using assms inv_rooms_cong[OF fr(1)] inv_members_cong[OF fr] fr(3) by simp_all
  show ?thesis using False r chk i1 joinRoom_inv_members[OF i1, of r]
    by (cases ok) (simp_all add: join_def)
qed

lemma leave_inv_members:
  assumes "inv_members st"
  shows "inv_members (fst (leave c roomId st))"
proof (cases "roomIdRejected roomId")
  case True
  then show ?thesis using assms by (simp add: leave_def)
next
  case False
  then obtain r where r: "roomId = JStr r" using roomId_accepted_is_string by blast
  let ?st1 = "fst (removePeer c r st)"
  have mem: "\<And>r'. members (fst (leave c roomId st)) r' = members ?st1 r'"
    using False r by (simp add: leave_def Let_def case_prod_beta members_def)
  have con: "connected (fst (leave c roomId st)) = connected st"
    using False r by (simp add: leave_def Let_def case_prod_beta removePeer_frame)
  have cur: "\<And>p r'. \<not> (p = c \<and> r' = r) \<Longrightarrow> currentRoomId st p = Some r' \<Longrightarrow>
                currentRoomId (fst (leave c roomId st)) p = Some r'"
    using False r by (auto simp: leave_def Let_def case_prod_beta removePeer_frame)
  show ?thesis unfolding inv_members_def
  proof (intro allI impI)
    fix r' p
    assume "p \<in> set (members (fst (leave c roomId st)) r')"
    then have m: "p \<in> set (members ?st1 r')" using mem by simp
    then have ne: "\<not> (p = c \<and> r' = r)" and m0: "p \<in> set (members st r')"
      by (auto simp: removePeer_members split: if_splits)
    from m0 assms have "p \<in> connected st" "currentRoomId st p = Some r'" by (auto simp: inv_members_def)
    then show "p \<in> connected (fst (leave c roomId st)) \<and> currentRoomId (fst (leave c roomId st)) p = Some r'"
      using con cur[OF ne] by simp
  qed
qed

lemma disconnect_not_member:
  assumes "inv_rooms st" "inv_members st"
  shows "c \<notin> set (members (fst (disconnect c st)) r)"
  using leaveCurrent_not_member[OF assms, of c r] by (simp add: disconnect_members)

lemma disconnect_inv_members:
  assumes "inv_rooms st" "inv_members st"
  shows "inv_members (fst (disconnect c st))"
  unfolding inv_members_def
proof (intro allI impI)
  fix r p
  assume p: "p \<in> set (members (fst (disconnect c st)) r)"
  then have pc: "p \<noteq> c" using disconnect_not_member[OF assms, of c r] by auto
  from p have "p \<in> set (members st r)" using leaveCurrent_members_mono by (simp add: disconnect_members)
  then have "p \<in> connected st" "currentRoomId st p = Some r" using assms(2) by (auto simp: inv_members_def)
  then show "p \<in> connected (fst (disconnect c st)) \<and> currentRoomId (fst (disconnect c st)) p = Some r"
    using pc by (simp add: disconnect_def Let_def case_prod_beta leaveCurrent_frame)
qed

lemma connection_inv_members:
  assumes "inv_members st" "c \<notin> connected st"
  shows "inv_members (connection c now st)"
  using assms by (auto simp: connection_def initializeUserActivity_def inv_members_def members_def)

lemma handle_inv_members:
  assumes "inv_rooms st" "inv_members st" "enabled ev st" "handle ev st = Inr (st', out)"
  shows "inv_members st'"
proof (cases ev)
  case (Connection c now)
  then show ?thesis using assms connection_inv_members[OF assms(2), of c now] by auto
next
  case (Join c roomId now)
  then show ?thesis using assms join_inv_members[OF assms(1,2), of c roomId now] by auto
next
  case (Leave c roomId)
  then show ?thesis using assms leave_inv_members[OF assms(2), of c roomId] by auto
next
  case (Disconnect c)
  then show ?thesis using assms disconnect_inv_members[OF assms(1,2), of c] by auto
next
  case (SignalEv c payload)
  then show ?thesis using assms signal_state[of c payload st st' out] by auto
next
  case (SetUserName c payload)
  then have "set_user_name c payload st = Inr (st', out)" using assms(4) by simp
  from set_user_name_frame[OF this] show ?thesis
    using assms(2) inv_members_cong[of st' st] by simp
next
  case (ChatMessageEv c payload now)
  then have "chat_message c payload now st = Inr (st', out)" using assms(4) by simp
  from chat_message_frame[OF this] show ?thesis
    using assms(2) inv_members_cong[of st' st] by simp
qed

lemma reachable_inv_members: "reachable st \<Longrightarrow> inv_members st"
proof (induction rule: reachable.induct)
  case reachable_init
  then show ?case by (simp add: inv_members_def init_state_def members_def)
next
  case (reachable_step st ev st1 out)
  then show ?case using handle_inv_members reachable_inv by blast
qed

subsection \<open>One entry per room\<close>











subsection \<open>The transport's rooms and the directory\<close>

lemma joinRoom_adapterRooms:
  "adapterRooms (fst (joinRoom c r st)) r' =
     (if r' = r then set_add c (adapterRooms (socketLeaveCurrent c st) r)
      else adapterRooms (socketLeaveCurrent c st) r')"
  by (simp add: joinRoom_def Let_def case_prod_beta socket_adapterRooms leaveCurrent_frame)

lemma inv_adapter_cong:
  "roomIdToSocketIds st' = roomIdToSocketIds st \<Longrightarrow> adapterRooms st' = adapterRooms st \<Longrightarrow>
   inv_adapter st' = inv_adapter st"
  by (simp add: inv_adapter_def members_def)

lemma joinRoom_inv_adapter:
  assumes "inv_adapter st"
  shows "inv_adapter (fst (joinRoom c r st))"
proof -
  have d: "\<And>r'. distinct (adapterRooms st r')"
    and m: "\<And>r' p. p \<in> set (members st r') \<Longrightarrow> p \<in> set (adapterRooms st r')"
    and a: "\<And>r' p. p \<in> set (adapterRooms st r') \<Longrightarrow> p = r' \<or> p \<in> set (members st r')"
    using assms by (auto simp: inv_adapter_def)
  have 1: "\<forall>r'. distinct (adapterRooms (fst (joinRoom c r st)) r')"
    using d by (auto simp: joinRoom_adapterRooms socket_adapterRooms set_add_def distinct_removeAll)
  have 2: "\<forall>r' p. p \<in> set (members (fst (joinRoom c r st)) r')
             \<longrightarrow> p \<in> set (adapterRooms (fst (joinRoom c r st)) r')"
    using m by (auto simp: joinRoom_adapterRooms socket_adapterRooms joinRoom_members
                           leaveCurrent_members set_add_def split: if_splits)
  have 3: "\<forall>r' p. p \<in> set (adapterRooms (fst (joinRoom c r st)) r')
             \<longrightarrow> p = r' \<or> p \<in> set (members (fst (joinRoom c r st)) r')"
    using a by (auto simp: joinRoom_adapterRooms socket_adapterRooms joinRoom_members
                           leaveCurrent_members set_add_def split: if_splits)
  from 1 2 3 show ?thesis unfolding inv_adapter_def by blast
qed

lemma join_inv_adapter:
  assumes "inv_adapter st"
  shows "inv_adapter (fst (join c roomId now st))"
proof (cases "roomIdRejected roomId")
  case True
  then show ?thesis using assms by (simp add: join_def)
next
  case False
  then obtain r where r: "roomId = JStr r" using roomId_accepted_is_string by blast
  obtain ok st1 where chk: "checkRoomJoinRate c now st = (ok, st1)"
    by (cases "checkRoomJoinRate c now st")
  have fr: "roomIdToSocketIds st1 = roomIdToSocketIds st" "adapterRooms st1 = adapterRooms st"
    using checkRoomJoinRate_frame[of c now st] chk by simp_all
  have i1: "inv_adapter st1" using assms inv_adapter_cong[OF fr] by simp
  show ?thesis using False r chk i1 joinRoom_inv_adapter[OF i1, of c r]
    by (cases ok) (simp_all add: join_def)
qed

lemma leave_members:
  "\<not> roomIdRejected (JStr r) \<Longrightarrow>
   members (fst (leave c (JStr r) st)) r' = (if r' = r then removeAll c (members st r) else members st r')"
  using removePeer_members[of c r st r']
  by (simp add: leave_def Let_def case_prod_beta members_def)

lemma leave_adapterRooms:
  "\<not> roomIdRejected (JStr r) \<Longrightarrow>
   adapterRooms (fst (leave c (JStr r) st)) r' =
     (if r' = r then removeAll c (adapterRooms st r) else adapterRooms st r')"
  by (simp add: leave_def Let_def case_prod_beta socket_adapterRooms removePeer_frame)

lemma leave_inv_adapter:
  assumes "inv_adapter st"
  shows "inv_adapter (fst (leave c roomId st))"
proof (cases "roomIdRejected roomId")
  case True
  then show ?thesis using assms by (simp add: leave_def)
next
  case False
  then obtain r where r: "roomId = JStr r" using roomId_accepted_is_string by blast
  then have v: "\<not> roomIdRejected (JStr r)" using False by simp
  show ?thesis using assms unfolding inv_adapter_def r
    by (auto simp: leave_members[OF v] leave_adapterRooms[OF v] distinct_removeAll split: if_splits)
qed

lemma disconnect_adapterRooms:
  "adapterRooms (fst (disconnect c st)) r = removeAll c (adapterRooms st r)"
  by (simp add: disconnect_def Let_def case_prod_beta leaveCurrent_frame socket_adapterRooms)

lemma disconnect_inv_adapter:
  assumes "inv_rooms st" "inv_members st" "inv_adapter st"
  shows "inv_adapter (fst (disconnect c st))"
proof -
  have d: "\<And>r'. distinct (adapterRooms st r')"
    and m: "\<And>r' p. p \<in> set (members st r') \<Longrightarrow> p \<in> set (adapterRooms st r')"
    and a: "\<And>r' p. p \<in> set (adapterRooms st r') \<Longrightarrow> p = r' \<or> p \<in> set (members st r')"
    using assms(3) by (auto simp: inv_adapter_def)
  have nm: "\<And>r'. c \<notin> set (members (fst (disconnect c st)) r')"
    using disconnect_not_member[OF assms(1,2)] by blast
  have sub: "\<And>r' p. p \<in> set (members (fst (disconnect c st)) r') \<Longrightarrow> p \<in> set (members st r')"
    using leaveCurrent_members_mono by (simp add: disconnect_members)
  have sup: "\<And>r' p. p \<in> set (members st r') \<Longrightarrow> p \<noteq> c
               \<Longrightarrow> p \<in> set (members (fst (disconnect c st)) r')"
    by (simp add: disconnect_members leaveCurrent_members)
  have 1: "\<forall>r'. distinct (adapterRooms (fst (disconnect c st)) r')"
    using d by (simp add: disconnect_adapterRooms distinct_removeAll)
  have 2: "\<forall>r' p. p \<in> set (members (fst (disconnect c st)) r')
             \<longrightarrow> p \<in> set (adapterRooms (fst (disconnect c st)) r')"
    using nm sub m by (fastforce simp: disconnect_adapterRooms)
  have 3: "\<forall>r' p. p \<in> set (adapterRooms (fst (disconnect c st)) r')
             \<longrightarrow> p = r' \<or> p \<in> set (members (fst (disconnect c st)) r')"
    using a sup by (fastforce simp: disconnect_adapterRooms)
  from 1 2 3 show ?thesis unfolding inv_adapter_def by blast
qed

lemma connection_inv_adapter:
  assumes "inv_adapter st"
  shows "inv_adapter (connection c now st)"
  using assms
  by (auto simp: connection_def initializeUserActivity_def inv_adapter_def members_def
                 socket_join_def set_add_def)

lemma handle_inv_adapter:
  assumes "inv_rooms st" "inv_members st" "inv_adapter st" "handle ev st = Inr (st', out)"
  shows "inv_adapter st'"
proof (cases ev)
  case (Connection c now)
  then show ?thesis using assms connection_inv_adapter[OF assms(3), of c now] by auto
next
  case (Join c roomId now)
  then show ?thesis using assms join_inv_adapter[OF assms(3), of c roomId now] by auto
next
  case (Leave c roomId)
  then show ?thesis using assms leave_inv_adapter[OF assms(3), of c roomId] by auto
next
  case (Disconnect c)
  then show ?thesis using assms disconnect_inv_adapter[OF assms(1,2,3), of c] by auto
next
  case (SignalEv c payload)
  then show ?thesis using assms signal_state[of c payload st st' out] by auto
next
  case (SetUserName c payload)
  then have "set_user_name c payload st = Inr (st', out)" using assms(4) by simp
  from set_user_name_frame[OF this] show ?thesis
    using assms(3) inv_adapter_cong[of st' st] by simp
next
  case (ChatMessageEv c payload now)
  then have "chat_message c payload now st = Inr (st', out)" using assms(4) by simp
  from chat_message_frame[OF this] show ?thesis
    using assms(3) inv_adapter_cong[of st' st] by simp
qed

lemma reachable_inv_adapter: "reachable st \<Longrightarrow> inv_adapter st"
proof (induction rule: reachable.induct)
  case reachable_init
  then show ?case by (simp add: inv_adapter_def init_state_def members_def)
next
  case (reachable_step st ev st1 out)
  then show ?case using handle_inv_adapter reachable_inv reachable_inv_members by blast
qed

subsection \<open>Running \<open>disconnect\<close> twice\<close>

lemma removePeer_idem: "fst (removePeer c r (fst (removePeer c r st))) = fst (removePeer c r st)"
  by (auto simp: removePeer_def Let_def set_delete_def update_conv' delete_conv' delete_update_same
           split: option.splits)

lemma removePeer_as_update:
  "fst (removePeer c r st) = st\<lparr>roomIdToSocketIds := roomIdToSocketIds (fst (removePeer c r st))\<rparr>"
  by (auto simp: removePeer_def Let_def split: option.splits)

lemma leaveCurrent_as_update:
  "fst (leaveCurrent c st) = st\<lparr>roomIdToSocketIds := roomIdToSocketIds (fst (leaveCurrent c st))\<rparr>"
  using removePeer_as_update by (auto simp: leaveCurrent_def split: option.splits)

lemma leaveCurrent_idem: "fst (leaveCurrent c (fst (leaveCurrent c st))) = fst (leaveCurrent c st)"
  by (auto simp: leaveCurrent_def removePeer_idem removePeer_frame split: option.splits)

lemma disconnect_idem: "fst (disconnect c (fst (disconnect c st))) = fst (disconnect c st)"
proof -
  let ?st1 = "fst (leaveCurrent c (socket_leaveAll c st))"
  let ?d = "fst (disconnect c st)"
  have d: "?d = ?st1\<lparr>socketIdToUserName := (socketIdToUserName ?st1)(c := None),
              userActivity := (userActivity ?st1)(c := None), connected := connected ?st1 - {c}\<rparr>"
    by (simp add: disconnect_def Let_def case_prod_beta)
  have ad: "adapterRooms ?d = (\<lambda>room. removeAll c (adapterRooms st room))"
    by (simp add: d leaveCurrent_frame socket_leaveAll_def set_delete_def)
  have "(\<lambda>room. removeAll c (adapterRooms ?d room)) = adapterRooms ?d"
    by (simp add: ad)
  then have la: "socket_leaveAll c ?d = ?d"
    by (simp add: socket_leaveAll_def set_delete_def)
  have r: "roomIdToSocketIds ?d = roomIdToSocketIds ?st1" and cu: "currentRoomId ?d c = currentRoomId ?st1 c"
    by (simp_all add: d)
  have "roomIdToSocketIds (fst (leaveCurrent c ?d)) = roomIdToSocketIds (fst (leaveCurrent c ?st1))"
    using leaveCurrent_rooms_cong[OF r cu] .
  also have "\<dots> = roomIdToSocketIds ?st1" by (simp add: leaveCurrent_idem)
  finally have "roomIdToSocketIds (fst (leaveCurrent c ?d)) = roomIdToSocketIds ?d" using r by simp
  then have l: "fst (leaveCurrent c ?d) = ?d" using leaveCurrent_as_update[of c ?d] by simp
  have "fst (disconnect c ?d) =
          (fst (leaveCurrent c (socket_leaveAll c ?d)))\<lparr>socketIdToUserName :=
              (socketIdToUserName (fst (leaveCurrent c (socket_leaveAll c ?d))))(c := None),
            userActivity := (userActivity (fst (leaveCurrent c (socket_leaveAll c ?d))))(c := None),
            connected := connected (fst (leaveCurrent c (socket_leaveAll c ?d))) - {c}\<rparr>"
    by (simp add: disconnect_def Let_def case_prod_beta)
  also have "\<dots> = ?d" unfolding la l by (simp add: d)
  finally show ?thesis .
qed

subsection \<open>Who receives a broadcast\<close>

lemma received_append: "received p (xs @ ys) = received p xs @ received p ys"
  by (simp add: received_def)

lemma received_broadcast:
  "distinct qs \<Longrightarrow> received p (map (\<lambda>q. (q, m)) qs) = (if p \<in> set qs then [m] else [])"
  by (induction qs) (auto simp: received_def)

lemma length_removeAll_member:
  "distinct ps \<Longrightarrow> c \<in> set ps \<Longrightarrow> length (removeAll c ps) + 1 = length ps"
  by (induction ps) auto

subsection \<open>The handlers of \<open>signal\<close>, \<open>set-user-name\<close>, \<open>chat-message\<close> and \<open>join\<close> by cases\<close>



lemma set_user_name_in_room:
  assumes v: "validateUserName (JStr n)" and p: "getProp payload ''userName'' = JStr n"
    and cur: "currentRoomId st c = Some r" and r: "r \<noteq> []"
    and ps: "map_of (roomIdToSocketIds st) r = Some ps"
  shows "set_user_name c payload st =
     (if \<exists>p \<in> set ps. p \<noteq> c \<and> socketIdToUserName st p = Some n
      then Inr (st, [(c, Error ''username'' UserNameTaken)])
      else Inr (st\<lparr>socketIdToUserName := (socketIdToUserName st)(c \<mapsto> n)\<rparr>,
                map (\<lambda>p. (p, UserNameSet c n)) (filter (\<lambda>p. p \<noteq> c) (adapterRooms st r))
                @ [(c, UserNameSet c n)]))"
proof -
  have np: "\<not> nullish payload" using p by (cases payload) auto
  show ?thesis using np v p cur r ps
    by (simp add: set_user_name_def Let_def socket_emit_def socket_to_def members_def list_ex_iff)
qed

lemma set_user_name_no_room:
  assumes v: "validateUserName (JStr n)" and p: "getProp payload ''userName'' = JStr n"
    and cur: "currentRoomId st c = None"
  shows "set_user_name c payload st =
           Inr (st\<lparr>socketIdToUserName := (socketIdToUserName st)(c \<mapsto> n)\<rparr>, [])"
proof -
  have np: "\<not> nullish payload" using p by (cases payload) auto
  show ?thesis using np v p cur by (simp add: set_user_name_def Let_def)
qed

lemma chat_message_payload:
  assumes "\<not> nullish p1" "\<not> nullish p2"
    and "getProp p1 ''text'' = getProp p2 ''text''" "getProp p1 ''timestamp'' = getProp p2 ''timestamp''"
  shows "chat_message c p1 now st = chat_message c p2 now st"
  using assms by (simp add: chat_message_def)

lemma chat_message_author:
  assumes "chat_message c payload now st = Inr (st1, out)" "(p, ChatMessage author body ts) \<in> set out"
  shows "author = resolveAuthor st c"
proof -
  obtain ok st2 where chk: "checkMessageRate c now st = (ok, st2)" by (cases "checkMessageRate c now st")
  show ?thesis using assms chk
    by (auto simp: chat_message_def Let_def socket_emit_def dest: socket_to_msg
             split: if_splits option.splits jsval.splits bool.splits)
qed



section \<open>The claims\<close>




text \<open>
  C2. From every reachable state, the state after a \<open>join\<close>, a \<open>leave\<close> or a \<open>disconnect\<close>
  has no directory entry with an empty member set; a \<open>leave\<close>, a \<open>disconnect\<close> or the
  implicit leave of a \<open>join\<close> that takes the last member out of a room leaves the directory
  without an entry for that room.
\<close>

theorem no_empty_room_after_operation:
  assumes "reachable st"
  shows "no_empty_room (fst (join c roomId now st)) \<and> no_empty_room (fst (leave c roomId st))
         \<and> no_empty_room (fst (disconnect c st))
         \<and> (\<not> roomIdRejected (JStr r) \<and> set (members st r) \<subseteq> {c}
              \<longrightarrow> map_of (roomIdToSocketIds (fst (leave c (JStr r) st))) r = None)
         \<and> (c \<in> connected st \<and> currentRoomId st c = Some r \<and> set (members st r) \<subseteq> {c}
              \<longrightarrow> map_of (roomIdToSocketIds (fst (disconnect c st))) r = None)
         \<and> (c \<in> connected st \<and> currentRoomId st c = Some r \<and> set (members st r) \<subseteq> {c}
              \<and> \<not> roomIdRejected (JStr r') \<and> r' \<noteq> r \<and> fst (checkRoomJoinRate c now st)
              \<longrightarrow> map_of (roomIdToSocketIds (fst (join c (JStr r') now st))) r = None)"
proof -
  have inv: "inv_rooms st" "inv_cur st" using assms reachable_inv by blast+
  have a: "no_empty_room (fst (join c roomId now st))" using join_inv[OF inv] inv_rooms_no_empty by blast
  have b: "no_empty_room (fst (leave c roomId st))" using leave_inv[OF inv] inv_rooms_no_empty by blast
  have d: "no_empty_room (fst (disconnect c st))" using disconnect_inv[OF inv] inv_rooms_no_empty by blast
  have e: "\<not> roomIdRejected (JStr r) \<and> set (members st r) \<subseteq> {c}
              \<longrightarrow> map_of (roomIdToSocketIds (fst (leave c (JStr r) st))) r = None"
    using removePeer_last[of st r c] by (auto simp: leave_def Let_def case_prod_beta)
  have f: "c \<in> connected st \<and> currentRoomId st c = Some r \<and> set (members st r) \<subseteq> {c}
              \<longrightarrow> map_of (roomIdToSocketIds (fst (disconnect c st))) r = None"
  proof (intro impI, elim conjE)
    assume h: "c \<in> connected st" "currentRoomId st c = Some r" "set (members st r) \<subseteq> {c}"
    have "r \<noteq> []" using cur_room_nonempty[OF inv h(1,2)] by simp
    then have "map_of (roomIdToSocketIds (fst (leaveCurrent c st))) r = None"
      using h removePeer_last[of st r c] by (simp add: leaveCurrent_def)
    then show "map_of (roomIdToSocketIds (fst (disconnect c st))) r = None"
      by (simp add: disconnect_def Let_def case_prod_beta)
  qed
  have g: "c \<in> connected st \<and> currentRoomId st c = Some r \<and> set (members st r) \<subseteq> {c}
              \<and> \<not> roomIdRejected (JStr r') \<and> r' \<noteq> r \<and> fst (checkRoomJoinRate c now st)
              \<longrightarrow> map_of (roomIdToSocketIds (fst (join c (JStr r') now st))) r = None"
  proof (intro impI, elim conjE)
    assume h: "c \<in> connected st" "currentRoomId st c = Some r" "set (members st r) \<subseteq> {c}"
      and v: "\<not> roomIdRejected (JStr r')" and ne: "r' \<noteq> r"
      and ok: "fst (checkRoomJoinRate c now st)"
    let ?st1 = "snd (checkRoomJoinRate c now st)"
    have rne: "r \<noteq> []" using cur_room_nonempty[OF inv h(1,2)] by simp
    have fr: "roomIdToSocketIds ?st1 = roomIdToSocketIds st" "currentRoomId ?st1 = currentRoomId st"
      by (simp_all add: checkRoomJoinRate_frame)
    have m1: "set (members ?st1 r) \<subseteq> {c}" using h(3) fr(1) by (simp add: members_def)
    have "map_of (roomIdToSocketIds (fst (leaveCurrent c ?st1))) r = None"
      using removePeer_last[OF m1] h(2) fr(2) rne by (simp add: leaveCurrent_def)
    then have "map_of (roomIdToSocketIds (fst (joinRoom c r' ?st1))) r = None"
      using ne by (simp add: joinRoom_def Let_def case_prod_beta update_conv')
    moreover have "join c (JStr r') now st = joinRoom c r' ?st1"
      using v ok by (cases "checkRoomJoinRate c now st") (simp add: join_def)
    ultimately show "map_of (roomIdToSocketIds (fst (join c (JStr r') now st))) r = None" by simp
  qed
  from a b d e f g show ?thesis by blast
qed

theorem no_empty_room_after_operation_witness:
  "reachable (final solo_scenario)
   \<and> no_empty_room (fst (join ''A'' (JStr ''room_2'') 2 (final solo_scenario)))
   \<and> no_empty_room (fst (leave ''A'' (JStr ''room_1'') (final solo_scenario)))
   \<and> no_empty_room (fst (disconnect ''A'' (final solo_scenario)))
   \<and> map_of (roomIdToSocketIds (fst (leave ''A'' (JStr ''room_1'') (final solo_scenario)))) ''room_1'' = None
   \<and> map_of (roomIdToSocketIds (fst (disconnect ''A'' (final solo_scenario)))) ''room_1'' = None
   \<and> map_of (roomIdToSocketIds (fst (join ''A'' (JStr ''room_2'') 2 (final solo_scenario)))) ''room_1''
       = None"
proof -
  have "feasible solo_scenario init_state" by (simp add: solo_scenario_def eval_defs)
  then have r: "reachable (final solo_scenario)" by (rule reachable_final)
  have v: "\<not> roomIdRejected (JStr ''room_1'')" by (simp add: eval_defs)
  have m: "set (members (final solo_scenario) ''room_1'') \<subseteq> {''A''}"
    by (simp add: solo_scenario_def eval_defs)
  have c: "''A'' \<in> connected (final solo_scenario)" "currentRoomId (final solo_scenario) ''A'' = Some ''room_1''"
    by (simp_all add: solo_scenario_def eval_defs)
  have v2: "\<not> roomIdRejected (JStr ''room_2'')" by (simp add: eval_defs)
  have ok: "fst (checkRoomJoinRate ''A'' 2 (final solo_scenario))"
    by (simp add: solo_scenario_def eval_defs)
  from no_empty_room_after_operation[OF r, of "''A''" "JStr ''room_2''" 2 "''room_1''" "''room_2''"]
       no_empty_room_after_operation[OF r, of "''A''" "JStr ''room_1''" 2 "''room_1''" "''room_2''"]
       r v v2 ok m c
  show ?thesis by simp
qed

text \<open>
  C3, at a concrete input. Sockets \<open>A\<close> and \<open>B\<close> connect at time 0 and join \<open>room_1\<close>;
  \<open>A\<close> sends one chat message at time 5000 and another at time 5001. Both are broadcast to
  \<open>B\<close>: the second is accepted one millisecond after the first, because \<open>lastActivity\<close>
  still holds the connection time 0. The window count has gone up to 2.
\<close>

theorem message_spacing_not_enforced:
  "received ''B'' (sent spacing_scenario)
     = [PeersList [''A''], ChatMessage guestLabel ''hello'' (JNum 5000),
        ChatMessage guestLabel ''hello again'' (JNum 5001)] \<and>
   map_option lastActivity (userActivity (final spacing_scenario) ''A'') = Some 0 \<and>
   map_option messageCount (userActivity (final spacing_scenario) ''A'') = Some 2"
  by (simp add: scen_defs eval_defs)

text \<open>
  C4. Whenever the \<open>chat-message\<close> handler sends a \<open>chat-message\<close> event to anyone, its
  \<open>author\<close> is the sender's entry of \<open>socketIdToUserName\<close>, or the guest label when the
  sender has no entry. Two payloads that agree on every property other than \<open>author\<close> have
  the same result: the same state and the same messages to the same recipients.
\<close>

theorem chat_author_resolved_by_server:
  "(chat_message c payload now st = Inr (st1, out) \<and> (p, ChatMessage author body ts) \<in> set out
      \<longrightarrow> author = resolveAuthor st c
          \<and> (socketIdToUserName st c = None \<longrightarrow> author = guestLabel)
          \<and> (\<forall>n. socketIdToUserName st c = Some n \<and> n \<noteq> [] \<longrightarrow> author = n))
   \<and> (\<not> nullish p1 \<and> \<not> nullish p2 \<and> (\<forall>k. k \<noteq> ''author'' \<longrightarrow> getProp p1 k = getProp p2 k)
      \<longrightarrow> chat_message c p1 now st = chat_message c p2 now st)"
proof -
  have a: "chat_message c payload now st = Inr (st1, out) \<and> (p, ChatMessage author body ts) \<in> set out
      \<longrightarrow> author = resolveAuthor st c
          \<and> (socketIdToUserName st c = None \<longrightarrow> author = guestLabel)
          \<and> (\<forall>n. socketIdToUserName st c = Some n \<and> n \<noteq> [] \<longrightarrow> author = n)"
    using chat_message_author[of c payload now st st1 out p author body ts]
    by (auto simp: resolveAuthor_def)
  have b: "\<not> nullish p1 \<and> \<not> nullish p2 \<and> (\<forall>k. k \<noteq> ''author'' \<longrightarrow> getProp p1 k = getProp p2 k)
      \<longrightarrow> chat_message c p1 now st = chat_message c p2 now st"
    using chat_message_payload[of p1 p2 c now st] by auto
  from a b show ?thesis ..
qed

theorem chat_author_resolved_by_server_witness:
  "(\<exists>st1. chat_message ''A'' (JObj [(''author'', JStr ''Bob''), (''text'', JStr ''hi''), (''timestamp'', JNum 7)])
        5000 (final author_scenario)
      = Inr (st1, [(''B'', ChatMessage ''Alice'' ''hi'' (JNum 7))]))
   \<and> chat_message ''A'' (JObj [(''author'', JStr ''Bob''), (''text'', JStr ''hi''), (''timestamp'', JNum 7)])
        5000 (final author_scenario)
     = chat_message ''A'' (JObj [(''text'', JStr ''hi''), (''timestamp'', JNum 7)])
        5000 (final author_scenario)
   \<and> (\<exists>st1. chat_message ''B'' (JObj [(''text'', JStr ''yo'')]) 5000 (final author_scenario)
      = Inr (st1, [(''A'', ChatMessage guestLabel ''yo'' JUndefined)]))"
proof -
  let ?p1 = "JObj [(''author'', JStr ''Bob''), (''text'', JStr ''hi''), (''timestamp'', JNum 7)]"
  let ?p2 = "JObj [(''text'', JStr ''hi''), (''timestamp'', JNum 7)]"
  let ?S = "final author_scenario"
  obtain st1 out where r: "chat_message ''A'' ?p1 5000 ?S = Inr (st1, out)"
    and o: "out = [(''B'', ChatMessage (resolveAuthor ?S ''A'') ''hi'' (JNum 7))]"
    by (simp add: scen_defs eval_defs)
  have nm: "socketIdToUserName ?S ''A'' = Some ''Alice''" by (simp add: scen_defs eval_defs)
  have "(''B'', ChatMessage (resolveAuthor ?S ''A'') ''hi'' (JNum 7)) \<in> set out" using o by simp
  with chat_author_resolved_by_server[of "''A''" ?p1 5000 ?S st1 out "''B''" "resolveAuthor ?S ''A''" "''hi''" "JNum 7"] r nm
  have au: "resolveAuthor ?S ''A'' = ''Alice''" by simp
  have k: "\<forall>k. k \<noteq> ''author'' \<longrightarrow> getProp ?p1 k = getProp ?p2 k" by simp
  have e: "chat_message ''A'' ?p1 5000 ?S = chat_message ''A'' ?p2 5000 ?S"
    using chat_author_resolved_by_server[of "''A''" ?p1 5000 ?S st1 out "''B''" "''x''" "''hi''" "JNum 7" ?p1 ?p2] k
    by simp
  have g: "\<exists>st1. chat_message ''B'' (JObj [(''text'', JStr ''yo'')]) 5000 ?S
      = Inr (st1, [(''A'', ChatMessage guestLabel ''yo'' JUndefined)])"
    by (simp add: scen_defs eval_defs)
  from r o au e g show ?thesis by auto
qed

text \<open>
  C5. In a reachable state, let a connected socket \<open>c\<close> send \<open>set-user-name\<close> with a name
  \<open>n\<close> that \<open>validateUserName\<close> accepts. If \<open>c\<close> is in a room and another member of that
  room holds exactly \<open>n\<close>, nothing changes and \<open>c\<close> gets an \<open>error\<close> of type \<open>username\<close>.
  If \<open>c\<close> is in a room where no other member holds \<open>n\<close> (whoever holds it elsewhere), the
  name is stored and every member of the room, \<open>c\<close> among them, receives exactly one
  \<open>user-name-set\<close> event. If \<open>c\<close> is in no room, the name is stored and nothing is sent.
\<close>

theorem set_user_name_unique_in_room:
  assumes "reachable st" and "c \<in> connected st"
    and "validateUserName (JStr n)" and "getProp payload ''userName'' = JStr n"
  shows "(\<forall>r. currentRoomId st c = Some r \<and>
              (\<exists>p \<in> set (members st r). p \<noteq> c \<and> socketIdToUserName st p = Some n)
            \<longrightarrow> set_user_name c payload st = Inr (st, [(c, Error ''username'' UserNameTaken)]))
       \<and> (\<forall>r. currentRoomId st c = Some r \<and>
              \<not> (\<exists>p \<in> set (members st r). p \<noteq> c \<and> socketIdToUserName st p = Some n)
            \<longrightarrow> (\<exists>out. set_user_name c payload st
                          = Inr (st\<lparr>socketIdToUserName := (socketIdToUserName st)(c \<mapsto> n)\<rparr>, out)
                       \<and> c \<in> set (members st r)
                       \<and> (\<forall>p \<in> set (members st r). received p out = [UserNameSet c n])))
       \<and> (currentRoomId st c = None
            \<longrightarrow> set_user_name c payload st
                  = Inr (st\<lparr>socketIdToUserName := (socketIdToUserName st)(c \<mapsto> n)\<rparr>, []))"
proof -
  have inv: "inv_rooms st" "inv_cur st" using assms(1) reachable_inv by blast+
  have inva: "inv_adapter st" using assms(1) by (rule reachable_inv_adapter)
  have room: "\<And>r. currentRoomId st c = Some r \<Longrightarrow>
     r \<noteq> [] \<and> c \<in> set (members st r) \<and> map_of (roomIdToSocketIds st) r = Some (members st r)
     \<and> distinct (members st r)"
  proof -
    fix r assume cur: "currentRoomId st c = Some r"
    have rc: "r \<noteq> []" "c \<in> set (members st r)" using cur_room_nonempty[OF inv assms(2) cur] by simp_all
    then have "map_of (roomIdToSocketIds st) r = Some (members st r)"
      by (cases "map_of (roomIdToSocketIds st) r") (auto simp: members_def)
    then show "r \<noteq> [] \<and> c \<in> set (members st r) \<and> map_of (roomIdToSocketIds st) r = Some (members st r)
      \<and> distinct (members st r)"
      using rc members_distinct[OF inv(1)] by simp
  qed
  have a: "\<forall>r. currentRoomId st c = Some r \<and>
              (\<exists>p \<in> set (members st r). p \<noteq> c \<and> socketIdToUserName st p = Some n)
            \<longrightarrow> set_user_name c payload st = Inr (st, [(c, Error ''username'' UserNameTaken)])"
  proof (intro allI impI, elim conjE)
    fix r assume cur: "currentRoomId st c = Some r"
      and ex: "\<exists>p \<in> set (members st r). p \<noteq> c \<and> socketIdToUserName st p = Some n"
    from room[OF cur] have r: "r \<noteq> []" and ps: "map_of (roomIdToSocketIds st) r = Some (members st r)" by simp_all
    from set_user_name_in_room[OF assms(3,4) cur r ps] ex
    show "set_user_name c payload st = Inr (st, [(c, Error ''username'' UserNameTaken)])" by simp
  qed
  have b: "\<forall>r. currentRoomId st c = Some r \<and>
              \<not> (\<exists>p \<in> set (members st r). p \<noteq> c \<and> socketIdToUserName st p = Some n)
            \<longrightarrow> (\<exists>out. set_user_name c payload st
                          = Inr (st\<lparr>socketIdToUserName := (socketIdToUserName st)(c \<mapsto> n)\<rparr>, out)
                       \<and> c \<in> set (members st r)
                       \<and> (\<forall>p \<in> set (members st r). received p out = [UserNameSet c n]))"
  proof (intro allI impI, elim conjE)
    fix r assume cur: "currentRoomId st c = Some r"
      and nex: "\<not> (\<exists>p \<in> set (members st r). p \<noteq> c \<and> socketIdToUserName st p = Some n)"
    from room[OF cur] have r: "r \<noteq> []" and cm: "c \<in> set (members st r)"
      and ps: "map_of (roomIdToSocketIds st) r = Some (members st r)" and d: "distinct (members st r)" by simp_all
    let ?out = "map (\<lambda>p. (p, UserNameSet c n)) (filter (\<lambda>p. p \<noteq> c) (adapterRooms st r))
                  @ [(c, UserNameSet c n)]"
    have eq: "set_user_name c payload st
                = Inr (st\<lparr>socketIdToUserName := (socketIdToUserName st)(c \<mapsto> n)\<rparr>, ?out)"
      using set_user_name_in_room[OF assms(3,4) cur r ps] nex by simp
    have rec: "\<forall>p \<in> set (members st r). received p ?out = [UserNameSet c n]"
    proof
      fix p assume pm: "p \<in> set (members st r)"
      have da: "distinct (filter (\<lambda>p. p \<noteq> c) (adapterRooms st r))"
        and pa: "p \<in> set (adapterRooms st r)"
        using inva pm by (auto simp: inv_adapter_def)
      have "received p (map (\<lambda>p. (p, UserNameSet c n)) (filter (\<lambda>p. p \<noteq> c) (adapterRooms st r)))
              = (if p \<noteq> c then [UserNameSet c n] else [])"
        using pa by (simp add: received_broadcast[OF da])
      moreover have "received p [(c, UserNameSet c n)] = (if p = c then [UserNameSet c n] else [])"
        by (simp add: received_def)
      ultimately show "received p ?out = [UserNameSet c n]" by (simp add: received_append)
    qed
    from eq cm rec show "\<exists>out. set_user_name c payload st
                          = Inr (st\<lparr>socketIdToUserName := (socketIdToUserName st)(c \<mapsto> n)\<rparr>, out)
                       \<and> c \<in> set (members st r)
                       \<and> (\<forall>p \<in> set (members st r). received p out = [UserNameSet c n])" by blast
  qed
  have c: "currentRoomId st c = None
            \<longrightarrow> set_user_name c payload st
                  = Inr (st\<lparr>socketIdToUserName := (socketIdToUserName st)(c \<mapsto> n)\<rparr>, [])"
    using set_user_name_no_room[OF assms(3,4)] by simp
  from a b c show ?thesis by blast
qed

theorem set_user_name_unique_in_room_witness:
  "reachable (final names_scenario)
   \<and> socketIdToUserName (final names_scenario) ''A'' = Some ''Alice''
   \<and> members (final names_scenario) ''room_1'' = [''A'', ''B'']
   \<and> members (final names_scenario) ''room_2'' = [''C'']
   \<and> set_user_name ''B'' alice (final names_scenario)
       = Inr (final names_scenario, [(''B'', Error ''username'' UserNameTaken)])
   \<and> (\<exists>out. set_user_name ''C'' alice (final names_scenario)
         = Inr ((final names_scenario)\<lparr>socketIdToUserName :=
                    (socketIdToUserName (final names_scenario))(''C'' \<mapsto> ''Alice'')\<rparr>, out)
        \<and> received ''C'' out = [UserNameSet ''C'' ''Alice''])"
proof -
  have "feasible names_scenario init_state" by (simp add: names_scenario_def eval_defs)
  then have r: "reachable (final names_scenario)" by (rule reachable_final)
  have v: "validateUserName (JStr ''Alice'')" by (simp add: eval_defs)
  have p: "getProp alice ''userName'' = JStr ''Alice''" by (simp add: alice_def)
  have cB: "''B'' \<in> connected (final names_scenario)" and cC: "''C'' \<in> connected (final names_scenario)"
    by (simp_all add: names_scenario_def eval_defs)
  have curB: "currentRoomId (final names_scenario) ''B'' = Some ''room_1''"
    and curC: "currentRoomId (final names_scenario) ''C'' = Some ''room_2''"
    by (simp_all add: names_scenario_def eval_defs)
  have m1: "members (final names_scenario) ''room_1'' = [''A'', ''B'']"
    and m2: "members (final names_scenario) ''room_2'' = [''C'']"
    by (simp_all add: names_scenario_def eval_defs)
  have nA: "socketIdToUserName (final names_scenario) ''A'' = Some ''Alice''"
    by (simp add: names_scenario_def eval_defs)
  have tB: "\<exists>p \<in> set (members (final names_scenario) ''room_1''). p \<noteq> ''B'' \<and>
               socketIdToUserName (final names_scenario) p = Some ''Alice''"
    using m1 nA by simp
  have fC: "\<not> (\<exists>p \<in> set (members (final names_scenario) ''room_2''). p \<noteq> ''C'' \<and>
               socketIdToUserName (final names_scenario) p = Some ''Alice'')"
    using m2 by simp
  from set_user_name_unique_in_room[OF r cB v p] curB tB
  have 1: "set_user_name ''B'' alice (final names_scenario)
       = Inr (final names_scenario, [(''B'', Error ''username'' UserNameTaken)])" by blast
  from set_user_name_unique_in_room[OF r cC v p] curC fC
  have 2: "\<exists>out. set_user_name ''C'' alice (final names_scenario)
         = Inr ((final names_scenario)\<lparr>socketIdToUserName :=
                    (socketIdToUserName (final names_scenario))(''C'' \<mapsto> ''Alice'')\<rparr>, out)
        \<and> ''C'' \<in> set (members (final names_scenario) ''room_2'')
        \<and> (\<forall>p \<in> set (members (final names_scenario) ''room_2''). received p out = [UserNameSet ''C'' ''Alice''])"
    by blast
  then have 3: "\<exists>out. set_user_name ''C'' alice (final names_scenario)
         = Inr ((final names_scenario)\<lparr>socketIdToUserName :=
                    (socketIdToUserName (final names_scenario))(''C'' \<mapsto> ''Alice'')\<rparr>, out)
        \<and> received ''C'' out = [UserNameSet ''C'' ''Alice'']"
    using m2 by auto
  from r nA m1 m2 1 3 show ?thesis by blast
qed

text \<open>
  C6, amended. In a reachable state, \<open>disconnect\<close> of a connected socket \<open>c\<close> deletes its
  display name and its activity record and leaves \<open>c\<close> a member of no room. If \<open>c\<close>
  occupied room \<open>r\<close>, the members of \<open>r\<close> are the former ones without \<open>c\<close>, one fewer; each
  of them receives exactly one \<open>peer-left\<close> for \<open>c\<close>; and if none remains the room has no
  entry any more. Running \<open>disconnect\<close> for \<open>c\<close> a second time changes no state, and sends
  nothing when \<open>c\<close> occupied no room or was the last member of its room.
\<close>

theorem disconnect_cleans_up:
  assumes "reachable st" and "c \<in> connected st"
  shows "socketIdToUserName (fst (disconnect c st)) c = None
       \<and> userActivity (fst (disconnect c st)) c = None
       \<and> (\<forall>r. c \<notin> set (members (fst (disconnect c st)) r))
       \<and> (currentRoomId st c = None \<longrightarrow>
            snd (disconnect c st) = [] \<and> roomIdToSocketIds (fst (disconnect c st)) = roomIdToSocketIds st)
       \<and> (\<forall>r. currentRoomId st c = Some r \<longrightarrow>
            members (fst (disconnect c st)) r = removeAll c (members st r)
            \<and> length (members (fst (disconnect c st)) r) + 1 = length (members st r)
            \<and> (\<forall>p \<in> set (members st r). p \<noteq> c \<longrightarrow> received p (snd (disconnect c st)) = [PeerLeft c])
            \<and> (set (members st r) \<subseteq> {c} \<longrightarrow>
                 map_of (roomIdToSocketIds (fst (disconnect c st))) r = None
                 \<and> snd (disconnect c (fst (disconnect c st))) = []))
       \<and> fst (disconnect c (fst (disconnect c st))) = fst (disconnect c st)
       \<and> (currentRoomId st c = None \<longrightarrow> snd (disconnect c (fst (disconnect c st))) = [])"
proof -
  have inv: "inv_rooms st" "inv_cur st" using assms(1) reachable_inv by blast+
  have invm: "inv_members st" using assms(1) by (rule reachable_inv_members)
  have inva: "inv_adapter st" using assms(1) by (rule reachable_inv_adapter)
  let ?st' = "fst (disconnect c st)"
  have cur': "currentRoomId ?st' = currentRoomId st"
    by (simp add: disconnect_def Let_def case_prod_beta leaveCurrent_frame)
  have a: "socketIdToUserName ?st' c = None \<and> userActivity ?st' c = None"
    by (simp add: disconnect_def Let_def case_prod_beta)
  have b: "\<forall>r. c \<notin> set (members ?st' r)" using disconnect_not_member[OF inv(1) invm] by blast
  have n: "currentRoomId st c = None \<longrightarrow>
            snd (disconnect c st) = [] \<and> roomIdToSocketIds ?st' = roomIdToSocketIds st"
    by (simp add: disconnect_def leaveCurrent_def Let_def case_prod_beta)
  have n2: "currentRoomId st c = None \<longrightarrow> snd (disconnect c ?st') = []"
    using cur' by (simp add: disconnect_out leaveCurrent_out_eq)
  have s: "\<forall>r. currentRoomId st c = Some r \<longrightarrow>
            members ?st' r = removeAll c (members st r)
            \<and> length (members ?st' r) + 1 = length (members st r)
            \<and> (\<forall>p \<in> set (members st r). p \<noteq> c \<longrightarrow> received p (snd (disconnect c st)) = [PeerLeft c])
            \<and> (set (members st r) \<subseteq> {c} \<longrightarrow>
                 map_of (roomIdToSocketIds ?st') r = None \<and> snd (disconnect c ?st') = [])"
  proof (intro allI impI)
    fix r assume cur: "currentRoomId st c = Some r"
    have rc: "r \<noteq> []" "c \<in> set (members st r)" using cur_room_nonempty[OF inv assms(2) cur] by simp_all
    have d: "distinct (members st r)" using members_distinct[OF inv(1)] .
    have m: "members ?st' r = removeAll c (members st r)"
      using cur rc(1) by (simp add: disconnect_members leaveCurrent_members)
    have l: "length (members ?st' r) + 1 = length (members st r)"
      using m length_removeAll_member[OF d rc(2)] by simp
    obtain ps where ps: "map_of (roomIdToSocketIds st) r = Some ps"
      using rc(2) by (cases "map_of (roomIdToSocketIds st) r") (auto simp: members_def)
    let ?to = "filter (\<lambda>p. p \<noteq> c) (removeAll c (adapterRooms st r))"
    have out: "snd (disconnect c st) = map (\<lambda>p. (p, PeerLeft c)) ?to"
      using cur rc(1) ps by (simp add: disconnect_out leaveCurrent_out_eq socket_adapterRooms)
    have dto: "distinct ?to" using inva by (simp add: inv_adapter_def distinct_removeAll)
    have mto: "\<And>p. p \<in> set (members st r) \<Longrightarrow> p \<noteq> c \<Longrightarrow> p \<in> set ?to"
      using inva by (auto simp: inv_adapter_def)
    have rec: "\<forall>p \<in> set (members st r). p \<noteq> c \<longrightarrow> received p (snd (disconnect c st)) = [PeerLeft c]"
    proof (intro ballI impI)
      fix p assume "p \<in> set (members st r)" "p \<noteq> c"
      then have "p \<in> set ?to" by (rule mto)
      then show "received p (snd (disconnect c st)) = [PeerLeft c]"
        unfolding out by (simp only: received_broadcast[OF dto] if_True)
    qed
    have out2: "map_of (roomIdToSocketIds ?st') r = None \<Longrightarrow> snd (disconnect c ?st') = []"
      using cur cur' rc(1) by (simp add: disconnect_out leaveCurrent_out_eq)
    have last: "set (members st r) \<subseteq> {c} \<longrightarrow>
                 map_of (roomIdToSocketIds ?st') r = None \<and> snd (disconnect c ?st') = []"
    proof
      assume sub: "set (members st r) \<subseteq> {c}"
      then have e: "removeAll c (members st r) = []"
        by (auto simp: removeAll_filter_not_eq filter_empty_conv)
      have "map_of (roomIdToSocketIds (fst (leaveCurrent c st))) r = None"
        using cur rc(1) removePeer_last[OF sub] by (simp add: leaveCurrent_def)
      then have "map_of (roomIdToSocketIds ?st') r = None"
        by (simp add: disconnect_def Let_def case_prod_beta)
      then show "map_of (roomIdToSocketIds ?st') r = None \<and> snd (disconnect c ?st') = []"
        using out2 by simp
    qed
    from m l rec last show "members ?st' r = removeAll c (members st r)
            \<and> length (members ?st' r) + 1 = length (members st r)
            \<and> (\<forall>p \<in> set (members st r). p \<noteq> c \<longrightarrow> received p (snd (disconnect c st)) = [PeerLeft c])
            \<and> (set (members st r) \<subseteq> {c} \<longrightarrow>
                 map_of (roomIdToSocketIds ?st') r = None \<and> snd (disconnect c ?st') = [])"
      by blast
  qed
  from a b n n2 s disconnect_idem[of c st] show ?thesis by blast
qed

theorem disconnect_cleans_up_witness:
  "reachable (final trio_scenario) \<and> ''A'' \<in> connected (final trio_scenario)
   \<and> currentRoomId (final trio_scenario) ''A'' = Some ''room_1''
   \<and> members (final trio_scenario) ''room_1'' = [''A'', ''B'', ''C'']
   \<and> members (fst (disconnect ''A'' (final trio_scenario))) ''room_1'' = [''B'', ''C'']
   \<and> received ''B'' (snd (disconnect ''A'' (final trio_scenario))) = [PeerLeft ''A'']
   \<and> received ''C'' (snd (disconnect ''A'' (final trio_scenario))) = [PeerLeft ''A'']
   \<and> socketIdToUserName (final trio_scenario) ''A'' = Some ''Alice''
   \<and> socketIdToUserName (fst (disconnect ''A'' (final trio_scenario))) ''A'' = None
   \<and> userActivity (fst (disconnect ''A'' (final trio_scenario))) ''A'' = None
   \<and> fst (disconnect ''A'' (fst (disconnect ''A'' (final trio_scenario))))
       = fst (disconnect ''A'' (final trio_scenario))"
proof -
  have "feasible trio_scenario init_state" by (simp add: trio_scenario_def eval_defs)
  then have r: "reachable (final trio_scenario)" by (rule reachable_final)
  have c: "''A'' \<in> connected (final trio_scenario)" by (simp add: trio_scenario_def eval_defs)
  have cur: "currentRoomId (final trio_scenario) ''A'' = Some ''room_1''" by (simp add: trio_scenario_def eval_defs)
  have m: "members (final trio_scenario) ''room_1'' = [''A'', ''B'', ''C'']" by (simp add: trio_scenario_def eval_defs)
  have nm: "socketIdToUserName (final trio_scenario) ''A'' = Some ''Alice''" by (simp add: trio_scenario_def eval_defs)
  from disconnect_cleans_up[OF r c] cur m nm r c show ?thesis by simp
qed

text \<open>
  C6 as stated fails: with \<open>A\<close>, \<open>B\<close> and \<open>C\<close> in \<open>room_1\<close>, the second \<open>disconnect\<close> of \<open>A\<close>
  sends \<open>peer-left\<close> to \<open>B\<close> and \<open>C\<close> again, since the handler never resets \<open>currentRoomId\<close>.
\<close>

theorem disconnect_twice_counterexample:
  "snd (disconnect ''A'' (fst (disconnect ''A'' (final trio_scenario))))
     = [(''B'', PeerLeft ''A''), (''C'', PeerLeft ''A'')]"
  by (simp add: trio_scenario_def eval_defs)

text \<open>
  C7, at a concrete input. Socket \<open>A\<close> connects and sends \<open>leave\<close> with the valid room id
  \<open>room_1\<close>. The state is reachable, \<open>A\<close> is still connected, and \<open>userActivity\<close> has no
  record for \<open>A\<close>: line 188 deletes it.
\<close>

theorem leave_deletes_activity_of_connected_socket:
  "reachable (final leave_scenario) \<and> ''A'' \<in> connected (final leave_scenario) \<and>
   userActivity (final leave_scenario) ''A'' = None"
proof -
  have "feasible leave_scenario init_state" by (simp add: scen_defs eval_defs)
  then have "reachable (final leave_scenario)" by (rule reachable_final)
  then show ?thesis by (simp add: scen_defs eval_defs)
qed



text \<open>
  C9, amended. \<open>leave\<close> leaves the display-name registry as it is, whatever the room id;
  \<open>disconnect\<close> removes the entry of the socket and no other.
\<close>

theorem leave_keeps_display_name:
  "socketIdToUserName (fst (leave c roomId st)) = socketIdToUserName st \<and>
   socketIdToUserName (fst (disconnect c st)) = (socketIdToUserName st)(c := None)"
  by (auto simp: leave_def disconnect_def leaveCurrent_def removePeer_def Let_def case_prod_beta socket_emit_def
      split: option.splits jsval.splits)

theorem leave_keeps_display_name_witness:
  "socketIdToUserName (final author_scenario) ''A'' = Some ''Alice''
   \<and> socketIdToUserName (fst (leave ''A'' (JStr ''room_1'') (final author_scenario)))
       = socketIdToUserName (final author_scenario)
   \<and> socketIdToUserName (fst (disconnect ''A'' (final author_scenario))) ''A'' = None"
proof -
  have n: "socketIdToUserName (final author_scenario) ''A'' = Some ''Alice''"
    by (simp add: scen_defs eval_defs)
  from leave_keeps_display_name[of "''A''" "JStr ''room_1''" "final author_scenario"] n
  show ?thesis by simp
qed

text \<open>
  C9 as stated fails: \<open>A\<close> joins \<open>room_1\<close>, names itself Alice and leaves \<open>room_1\<close>; it is no
  longer a member, and its entry in the registry is still Alice.
\<close>

theorem leave_removes_display_name_counterexample:
  "''A'' \<notin> set (members (fst (leave ''A'' (JStr ''room_1'') (final author_scenario))) ''room_1'') \<and>
   socketIdToUserName (fst (leave ''A'' (JStr ''room_1'') (final author_scenario))) ''A'' = Some ''Alice''"
  by (simp add: scen_defs eval_defs)

text \<open>
  C10. For a socket id without an activity record, \<open>checkMessageRate\<close> and
  \<open>checkRoomJoinRate\<close> both return \<open>true\<close> and change nothing. No handler but the connection
  handler creates a record, so after any further events that hold no new connection of that
  id the record is still absent, and none of them was answered with a rate-limit error.
\<close>

theorem no_activity_record_no_rate_limit:
  assumes "userActivity st c = None"
  shows "checkMessageRate c now st = (True, st) \<and> checkRoomJoinRate c now st = (True, st) \<and>
         (\<forall>evs st' out. list_all (\<lambda>ev. \<not> isConnectionOf c ev) evs \<and> run evs st = Inr (st', out)
             \<longrightarrow> userActivity st' c = None \<and> \<not> rateLimited c out)"
  using checks_without_record[OF assms] run_no_record[OF assms] by blast

theorem no_activity_record_no_rate_limit_witness:
  "userActivity (final [Connection ''A'' 0, Leave ''A'' (JStr ''room_1'')]) ''A'' = None \<and>
   ''A'' \<in> connected (final [Connection ''A'' 0, Leave ''A'' (JStr ''room_1'')]) \<and>
   checkMessageRate ''A'' 1 (final [Connection ''A'' 0, Leave ''A'' (JStr ''room_1'')])
     = (True, final [Connection ''A'' 0, Leave ''A'' (JStr ''room_1'')]) \<and>
   checkRoomJoinRate ''A'' 1 (final [Connection ''A'' 0, Leave ''A'' (JStr ''room_1'')])
     = (True, final [Connection ''A'' 0, Leave ''A'' (JStr ''room_1'')]) \<and>
   (case run [Join ''A'' (JStr ''room_1'') 2,
              ChatMessageEv ''A'' (JObj [(''text'', JStr ''one'')]) 3,
              ChatMessageEv ''A'' (JObj [(''text'', JStr ''two'')]) 4]
             (final [Connection ''A'' 0, Leave ''A'' (JStr ''room_1'')]) of
      Inl e \<Rightarrow> False
    | Inr (st', out) \<Rightarrow> userActivity st' ''A'' = None \<and> \<not> rateLimited ''A'' out)"
proof -
  let ?S = "final [Connection ''A'' 0, Leave ''A'' (JStr ''room_1'')]"
  let ?evs = "[Join ''A'' (JStr ''room_1'') 2,
              ChatMessageEv ''A'' (JObj [(''text'', JStr ''one'')]) 3,
              ChatMessageEv ''A'' (JObj [(''text'', JStr ''two'')]) 4]"
  have h: "userActivity ?S ''A'' = None" by (simp add: eval_defs)
  have c: "''A'' \<in> connected ?S" by (simp add: eval_defs)
  obtain st' out where r: "run ?evs ?S = Inr (st', out)"
    by (simp add: eval_defs Let_def)
  have f: "list_all (\<lambda>ev. \<not> isConnectionOf ''A'' ev) ?evs" by simp
  from no_activity_record_no_rate_limit[OF h, of 1] f r h c show ?thesis
    by (simp only: sum.case prod.case) blast
qed

end
